theory Spec2Isabelle
  imports Main "HOL-Library.Multiset"
begin

section \<open>Python values and errors\<close>

text \<open>
  What \<^verbatim>\<open>json.load\<close> returns: \<^verbatim>\<open>None\<close>, booleans, numbers, strings, lists and
  dicts with string keys. A dict is kept as the list of its items in insertion order; a
  loaded dict has no repeated key. Numbers are integers here (no claim reads a number).
\<close>

datatype json =
    JNull
  | JBool bool
  | JNum int
  | JStr string
  | JArr "json list"
  | JObj "(string \<times> json) list"

text \<open>
  The exceptions the code can raise. \<open>ValueError\<close> carries its message and stands for the
  \<^verbatim>\<open>raise ValueError(...)\<close> statements of app.py; the errors raised inside dateutil
  (\<open>ParserError\<close>) and pydantic (\<open>ValidationError\<close>) are kept apart from it.
\<close>

datatype py_error =
    ValueError string
  | AttributeError
  | IndexError
  | KeyError
  | TypeError
  | ParserError
  | ValidationError
  | FileNotFoundError
  | JSONDecodeError
  | ContextKeyError string
  | BarrierError
  | ConfigurationError string
  | CapabilityError string

definition bnd :: "py_error + 'a \<Rightarrow> ('a \<Rightarrow> py_error + 'b) \<Rightarrow> py_error + 'b" where
  "bnd m f = (case m of Inl e \<Rightarrow> Inl e | Inr x \<Rightarrow> f x)"

fun map_err :: "('a \<Rightarrow> py_error + 'b) \<Rightarrow> 'a list \<Rightarrow> py_error + 'b list" where
  "map_err f [] = Inr []"
| "map_err f (x # xs) = bnd (f x) (\<lambda>y. bnd (map_err f xs) (\<lambda>ys. Inr (y # ys)))"

text \<open>\<^verbatim>\<open>x.get(k, d)\<close>: only a dict has the method.\<close>

fun py_get :: "json \<Rightarrow> string \<Rightarrow> json \<Rightarrow> py_error + json" where
  "py_get (JObj kvs) k d = Inr (case map_of kvs k of None \<Rightarrow> d | Some v \<Rightarrow> v)"
| "py_get _ k d = Inl AttributeError"

text \<open>\<^verbatim>\<open>x[0]\<close>: a dict loaded from JSON has string keys only, so the key 0 is missing.\<close>

fun py_item0 :: "json \<Rightarrow> py_error + json" where
  "py_item0 (JArr []) = Inl IndexError"
| "py_item0 (JArr (x # xs)) = Inr x"
| "py_item0 (JStr []) = Inl IndexError"
| "py_item0 (JStr (c # cs)) = Inr (JStr [c])"
| "py_item0 (JObj kvs) = Inl KeyError"
| "py_item0 _ = Inl TypeError"

text \<open>\<^verbatim>\<open>for entry in x\<close>: a dict yields its keys, a string its characters.\<close>

fun py_iter :: "json \<Rightarrow> py_error + json list" where
  "py_iter (JArr xs) = Inr xs"
| "py_iter (JObj kvs) = Inr (map (\<lambda>kv. JStr (fst kv)) kvs)"
| "py_iter (JStr s) = Inr (map (\<lambda>c. JStr [c]) s)"
| "py_iter _ = Inl TypeError"

fun truthy :: "json \<Rightarrow> bool" where
  "truthy JNull = False"
| "truthy (JBool b) = b"
| "truthy (JNum n) = (n \<noteq> 0)"
| "truthy (JStr s) = (s \<noteq> [])"
| "truthy (JArr xs) = (xs \<noteq> [])"
| "truthy (JObj kvs) = (kvs \<noteq> [])"

text \<open>\<^verbatim>\<open>x in s\<close> for a set of strings \<open>s\<close>: a list or a dict cannot be hashed.\<close>

fun py_in_strs :: "json \<Rightarrow> string list \<Rightarrow> py_error + bool" where
  "py_in_strs (JStr s) ss = Inr (s \<in> set ss)"
| "py_in_strs (JArr xs) ss = Inl TypeError"
| "py_in_strs (JObj kvs) ss = Inl TypeError"
| "py_in_strs _ ss = Inr False"

text \<open>pydantic's validation of a \<^verbatim>\<open>str\<close> and of an \<^verbatim>\<open>Optional[str]\<close> field.\<close>

fun as_str :: "json \<Rightarrow> py_error + string" where
  "as_str (JStr s) = Inr s"
| "as_str _ = Inl ValidationError"

fun as_opt_str :: "json \<Rightarrow> py_error + string option" where
  "as_opt_str (JStr s) = Inr (Some s)"
| "as_opt_str JNull = Inr None"
| "as_opt_str _ = Inl ValidationError"

section \<open>The patient record\<close>

record ConditionInfo =
  code :: string
  display :: string
  clinical_status :: string

record EncounterInfo =
  date :: string
  reason_display :: "string option"
  type_display :: "string option"

record MedicationInfo =
  name :: string
  start_date :: "string option"
  instructions :: "string option"

record PatientInfo =
  given_name :: string
  family_name :: string
  birth_date :: string
  gender :: string
  conditions :: "ConditionInfo list"
  recent_encounters :: "EncounterInfo list"
  current_medications :: "MedicationInfo list"

section \<open>parse_synthea_patient\<close>

text \<open>The four variables the loop over the bundle's entries fills.\<close>

record resources =
  patient_resource :: "json option"
  condition_resources :: "json list"
  encounter_resources :: "json list"
  medication_requests :: "json list"

definition no_resources :: resources where
  "no_resources = \<lparr>patient_resource = None, condition_resources = [],
     encounter_resources = [], medication_requests = []\<rparr>"

definition scan_entry :: "resources \<Rightarrow> json \<Rightarrow> py_error + resources" where
  "scan_entry s entry =
     bnd (py_get entry ''resource'' (JObj [])) (\<lambda>resource.
     bnd (py_get resource ''resourceType'' JNull) (\<lambda>resource_type.
       Inr (if resource_type = JStr ''Patient'' then s\<lparr>patient_resource := Some resource\<rparr>
            else if resource_type = JStr ''Condition''
              then s\<lparr>condition_resources := condition_resources s @ [resource]\<rparr>
            else if resource_type = JStr ''Encounter''
              then s\<lparr>encounter_resources := encounter_resources s @ [resource]\<rparr>
            else if resource_type = JStr ''MedicationRequest''
              then s\<lparr>medication_requests := medication_requests s @ [resource]\<rparr>
            else s)))"

fun scan_entries :: "resources \<Rightarrow> json list \<Rightarrow> py_error + resources" where
  "scan_entries s [] = Inr s"
| "scan_entries s (entry # es) = bnd (scan_entry s entry) (\<lambda>s'. scan_entries s' es)"

definition bundle_entries :: "json \<Rightarrow> py_error + json list" where
  "bundle_entries bundle = bnd (py_get bundle ''entry'' (JArr [])) py_iter"

text \<open>Lines 100 to 104: the demographics, as found in the resource.\<close>

definition demographics :: "json \<Rightarrow> py_error + (json \<times> json \<times> json \<times> json)" where
  "demographics patient =
     bnd (py_get patient ''name'' (JArr [JObj []])) (\<lambda>names.
     bnd (py_item0 names) (\<lambda>name_entry.
     bnd (py_get name_entry ''given'' (JArr [JStr ''''])) (\<lambda>givens.
     bnd (py_item0 givens) (\<lambda>given_name.
     bnd (py_get name_entry ''family'' (JStr '''')) (\<lambda>family_name.
     bnd (py_get patient ''birthDate'' (JStr '''')) (\<lambda>birth_date.
     bnd (py_get patient ''gender'' (JStr '''')) (\<lambda>gender.
       Inr (given_name, family_name, birth_date, gender))))))))"

definition excluded_conditions :: "string list" where
  "excluded_conditions =
     [''Medication review due (situation)'', ''Risk activity involvement (finding)'']"

text \<open>Lines 110 to 117: code, display and clinical status of a Condition resource.\<close>

definition condition_fields :: "json \<Rightarrow> py_error + (json \<times> json \<times> json)" where
  "condition_fields c =
     bnd (py_get c ''code'' (JObj [])) (\<lambda>cc.
     bnd (py_get cc ''coding'' (JArr [JObj []])) (\<lambda>codings.
     bnd (py_item0 codings) (\<lambda>code_info.
     bnd (py_get code_info ''code'' (JStr ''Unknown'')) (\<lambda>condition_code.
     bnd (py_get code_info ''display'' (JStr ''Unknown'')) (\<lambda>condition_display.
     bnd (py_get c ''clinicalStatus'' (JObj [])) (\<lambda>cs.
     bnd (py_get cs ''coding'' (JArr [JObj []])) (\<lambda>cs_codings.
     bnd (py_item0 cs_codings) (\<lambda>cs_coding.
     bnd (py_get cs_coding ''code'' (JStr ''unknown'')) (\<lambda>status.
       Inr (condition_code, condition_display, status))))))))))"

definition mk_ConditionInfo :: "json \<Rightarrow> json \<Rightarrow> json \<Rightarrow> py_error + ConditionInfo" where
  "mk_ConditionInfo c d s =
     bnd (as_str c) (\<lambda>c'. bnd (as_str d) (\<lambda>d'. bnd (as_str s) (\<lambda>s'.
       Inr \<lparr>code = c', display = d', clinical_status = s'\<rparr>)))"

text \<open>One round of the loop over the conditions: the list grows by at most one entry.\<close>

definition condition_step :: "bool \<Rightarrow> json \<Rightarrow> py_error + ConditionInfo list" where
  "condition_step filter_active c =
     bnd (condition_fields c) (\<lambda>(condition_code, condition_display, status).
     bnd (py_in_strs condition_display excluded_conditions) (\<lambda>excluded.
       if \<not> excluded then
         (if filter_active then
            (if status = JStr ''active''
             then bnd (mk_ConditionInfo condition_code condition_display status) (\<lambda>ci. Inr [ci])
             else Inr [])
          else bnd (mk_ConditionInfo condition_code condition_display status) (\<lambda>ci. Inr [ci]))
       else Inr []))"

fun condition_loop :: "bool \<Rightarrow> json list \<Rightarrow> py_error + ConditionInfo list" where
  "condition_loop filter_active [] = Inr []"
| "condition_loop filter_active (c # cs) =
     bnd (condition_step filter_active c) (\<lambda>new.
     bnd (condition_loop filter_active cs) (\<lambda>rest. Inr (new @ rest)))"

text \<open>
  A \<^verbatim>\<open>datetime\<close> object is offset-naive or offset-aware. Two datetimes of the same kind are
  compared by their point in time, here a point of a linear order; comparing a naive with
  an aware one raises TypeError.
\<close>

datatype 'd datetime = Naive 'd | Aware 'd

fun instant :: "'d datetime \<Rightarrow> 'd" where
  "instant (Naive d) = d"
| "instant (Aware d) = d"

fun is_aware :: "'d datetime \<Rightarrow> bool" where
  "is_aware (Naive d) = False"
| "is_aware (Aware d) = True"

fun is_naive :: "'d datetime \<Rightarrow> bool" where
  "is_naive (Naive d) = True"
| "is_naive (Aware d) = False"

text \<open>
  \<^verbatim>\<open>get_encounter_date\<close>. dateutil's \<^verbatim>\<open>parse\<close> is not part of the repository: it is the
  parameter \<open>parse\<close>, which gives a datetime or fails. It refuses anything but a string.
  The file imports the module \<^verbatim>\<open>datetime\<close>, which has no attribute \<^verbatim>\<open>min\<close>, so the branch
  for a missing start raises.
\<close>

definition get_encounter_date ::
  "(string \<Rightarrow> 'd datetime option) \<Rightarrow> json \<Rightarrow> py_error + 'd datetime" where
  "get_encounter_date parse enc =
     bnd (py_get enc ''period'' (JObj [])) (\<lambda>period.
     bnd (py_get period ''start'' JNull) (\<lambda>start.
       if truthy start then
         (case start of
            JStr s \<Rightarrow> (case parse s of None \<Rightarrow> Inl ParserError | Some d \<Rightarrow> Inr d)
          | _ \<Rightarrow> Inl TypeError)
       else Inl AttributeError))"

text \<open>
  \<^verbatim>\<open>sorted(encounters, key=get_encounter_date)\<close>: every key is computed first, then the
  list is sorted by key, equal keys keeping their order. A sort of keys that are not all
  of one kind has to compare a naive datetime with an aware one, and raises.
\<close>

definition comparable :: "'d datetime list \<Rightarrow> bool" where
  "comparable keys = (list_all is_aware keys \<or> list_all is_naive keys)"

definition sorted_by_date ::
  "(string \<Rightarrow> 'd::linorder datetime option) \<Rightarrow> json list \<Rightarrow>
     py_error + ('d datetime \<times> json) list" where
  "sorted_by_date parse encs =
     bnd (map_err (get_encounter_date parse) encs) (\<lambda>keys.
       if comparable keys
       then Inr (sort_key (\<lambda>kr. instant (fst kr)) (zip keys encs))
       else Inl TypeError)"

text \<open>\<^verbatim>\<open>xs[-3:] if len(xs) > 3 else xs\<close>\<close>

definition last3 :: "'a list \<Rightarrow> 'a list" where
  "last3 xs = (if length xs > 3 then drop (length xs - 3) xs else xs)"

definition encounter_info :: "json \<Rightarrow> py_error + EncounterInfo" where
  "encounter_info e =
     bnd (py_get e ''period'' (JObj [])) (\<lambda>period.
     bnd (py_get period ''start'' (JStr '''')) (\<lambda>start_date.
     bnd (py_get e ''reasonCode'' (JArr [JObj []])) (\<lambda>rcs.
     bnd (py_item0 rcs) (\<lambda>rc.
     bnd (py_get rc ''coding'' (JArr [JObj []])) (\<lambda>rcodings.
     bnd (py_item0 rcodings) (\<lambda>rcoding.
     bnd (py_get rcoding ''display'' JNull) (\<lambda>reason.
     bnd (py_get e ''type'' (JArr [JObj []])) (\<lambda>tys.
     bnd (py_item0 tys) (\<lambda>ty.
     bnd (py_get ty ''coding'' (JArr [JObj []])) (\<lambda>tcodings.
     bnd (py_item0 tcodings) (\<lambda>tcoding.
     bnd (py_get tcoding ''display'' JNull) (\<lambda>etype.
     bnd (as_str start_date) (\<lambda>d.
     bnd (as_opt_str reason) (\<lambda>r.
     bnd (as_opt_str etype) (\<lambda>t.
       Inr \<lparr>date = d, reason_display = r, type_display = t\<rparr>)))))))))))))))"

definition medication_step :: "json \<Rightarrow> py_error + MedicationInfo list" where
  "medication_step m =
     bnd (py_get m ''status'' JNull) (\<lambda>status.
       if status = JStr ''active'' then
         bnd (py_get m ''medicationCodeableConcept'' (JObj [])) (\<lambda>mcc.
         bnd (py_get mcc ''coding'' (JArr [JObj []])) (\<lambda>codings.
         bnd (py_item0 codings) (\<lambda>med_code.
         bnd (py_get med_code ''display'' (JStr ''Unknown Medication'')) (\<lambda>med_name.
         bnd (py_get m ''authoredOn'' JNull) (\<lambda>authored.
         bnd (py_get m ''dosageInstruction'' (JArr [JObj []])) (\<lambda>dis.
         bnd (py_item0 dis) (\<lambda>di.
         bnd (py_get di ''text'' JNull) (\<lambda>dosage_instruction.
         bnd (as_str med_name) (\<lambda>n.
         bnd (as_opt_str authored) (\<lambda>a.
         bnd (as_opt_str dosage_instruction) (\<lambda>i.
           Inr [\<lparr>name = n, start_date = a, instructions = i\<rparr>])))))))))))
       else Inr [])"

fun medication_loop :: "json list \<Rightarrow> py_error + MedicationInfo list" where
  "medication_loop [] = Inr []"
| "medication_loop (m # ms) =
     bnd (medication_step m) (\<lambda>new.
     bnd (medication_loop ms) (\<lambda>rest. Inr (new @ rest)))"

text \<open>
  The function on the loaded bundle (reading the file and \<^verbatim>\<open>json.load\<close> come before and
  are not modelled).
\<close>

definition parse_synthea_patient ::
  "(string \<Rightarrow> 'd::linorder datetime option) \<Rightarrow> json \<Rightarrow> bool \<Rightarrow> py_error + PatientInfo" where
  "parse_synthea_patient parse bundle filter_active =
     bnd (bundle_entries bundle) (\<lambda>entries.
     bnd (scan_entries no_resources entries) (\<lambda>s.
       case patient_resource s of
         None \<Rightarrow> Inl (ValueError ''No Patient resource found in the provided file.'')
       | Some patient \<Rightarrow>
           if \<not> truthy patient
           then Inl (ValueError ''No Patient resource found in the provided file.'')
           else
             bnd (demographics patient) (\<lambda>(gn, fn, bd, g).
             bnd (condition_loop filter_active (condition_resources s)) (\<lambda>condition_info_list.
             bnd (sorted_by_date parse (encounter_resources s)) (\<lambda>encounters_sorted.
             bnd (map_err encounter_info (map snd (last3 encounters_sorted)))
               (\<lambda>encounter_info_list.
             bnd (medication_loop (medication_requests s)) (\<lambda>medication_info_list.
             bnd (as_str gn) (\<lambda>gn'.
             bnd (as_str fn) (\<lambda>fn'.
             bnd (as_str bd) (\<lambda>bd'.
             bnd (as_str g) (\<lambda>g'.
               Inr \<lparr>given_name = gn', family_name = fn', birth_date = bd', gender = g',
                    conditions = condition_info_list,
                    recent_encounters = encounter_info_list,
                    current_medications = medication_info_list\<rparr>)))))))))))"

text \<open>
  The resources of one type among the entries of a bundle, in the bundle's order: what
  the claims call ``the Encounter resources in the bundle''.
\<close>

definition entry_resource :: "json \<Rightarrow> json" where
  "entry_resource e = (case py_get e ''resource'' (JObj []) of Inr r \<Rightarrow> r | Inl _ \<Rightarrow> JNull)"

definition has_type :: "string \<Rightarrow> json \<Rightarrow> bool" where
  "has_type t r = (py_get r ''resourceType'' JNull = Inr (JStr t))"

definition resources_of :: "string \<Rightarrow> json list \<Rightarrow> json list" where
  "resources_of t es = filter (has_type t) (map entry_resource es)"

text \<open>
  A bundle is well formed when every entry is a dict whose resource is a dict: the loop
  over the entries then reaches its end.
\<close>

definition fhir_entry :: "json \<Rightarrow> bool" where
  "fhir_entry e = (case py_get e ''resource'' (JObj []) of
       Inr (JObj kvs) \<Rightarrow> True | _ \<Rightarrow> False)"

text \<open>The results that are not a \<open>ValueError\<close> of app.py.\<close>

definition no_ValueError :: "py_error + 'a \<Rightarrow> bool" where
  "no_ValueError m = (case m of Inl (ValueError msg) \<Rightarrow> False | _ \<Rightarrow> True)"

section \<open>The workflow's data\<close>

record ConditionBundle =
  condition :: ConditionInfo
  encounters :: "EncounterInfo list"
  medications :: "MedicationInfo list"

record GuidelineRecommendation =
  guideline_source :: string
  recommendation_summary :: string
  reference_section :: "string option"

record ConditionSummary =
  condition_display :: string
  summary :: string

record CaseSummary =
  patient_name :: string
  age :: int
  overall_assessment :: string
  condition_summaries :: "ConditionSummary list"

text \<open>A retrieved node: its \<^verbatim>\<open>id_\<close> and what \<^verbatim>\<open>get_content()\<close> gives.\<close>

record node =
  node_id :: string
  content :: string

text \<open>
  What \<^verbatim>\<open>astructured_predict\<close> hands back: an object of the class asked for, a pydantic
  model of another class, or something that is no model at all (it has no
  \<^verbatim>\<open>model_dump\<close>).
\<close>

datatype 'a predicted = Conforms 'a | Other_model | Not_a_model

text \<open>
  The events of app.py. \<^verbatim>\<open>StartEvent\<close> carries \<^verbatim>\<open>patient_json_path\<close>, \<^verbatim>\<open>StopEvent\<close> the
  value stored under \<^verbatim>\<open>"case_summary"\<close> in its result. \<^verbatim>\<open>LogEvent\<close> goes to the stream
  only, see \<open>write_event_to_stream\<close>.
\<close>

datatype event =
    StartEvent string
  | PatientInfoEvent PatientInfo
  | ConditionBundleEvent "ConditionBundle list"
  | MatchGuidelineEvent ConditionBundle
  | MatchGuidelineResultEvent ConditionBundle GuidelineRecommendation
  | GenerateCaseSummaryEvent "(ConditionBundle \<times> GuidelineRecommendation) list"
  | StopEvent "CaseSummary predicted"

record LogEvent =
  msg :: string
  delta :: bool

text \<open>
  The calls into the two capabilities, with their arguments: \<^verbatim>\<open>llm.astructured_predict\<close>
  for each of the four output classes and \<^verbatim>\<open>guideline_retriever.retrieve\<close>.
\<close>

datatype call =
    PredictConditionBundles PatientInfo
  | PredictGuidelineQueries string ConditionBundle
  | Retrieve string
  | PredictGuidelineRecommendation string ConditionBundle string
  | PredictCaseSummary string "(ConditionBundle \<times> GuidelineRecommendation) list"

fun is_predict :: "call \<Rightarrow> bool" where
  "is_predict (Retrieve q) = False"
| "is_predict _ = True"

fun is_retrieve :: "call \<Rightarrow> bool" where
  "is_retrieve (Retrieve q) = True"
| "is_retrieve _ = False"

text \<open>
  A file holds one JSON document or, for a \<^verbatim>\<open>.jsonl\<close> file, one document per line.
\<close>

datatype file_content = Json json | Lines "json list"

datatype ctx_value = CPatientInfo PatientInfo | CNum nat

text \<open>
  The workflow object: its output directory (\<^verbatim>\<open>Path(output_dir) / "workflow_output"\<close>),
  \<^verbatim>\<open>_verbose\<close>, and what the code takes from outside. The language model and the retriever
  answer as functions of their arguments; pydantic's \<^verbatim>\<open>model_dump_json\<close> and
  \<^verbatim>\<open>model_validate\<close> are parameters too, as is dateutil's \<^verbatim>\<open>parse\<close>. The prompts are
  constants of app.py and are left out of the arguments. The module-level function
  \<^verbatim>\<open>create_condition_bundles\<close> and the steps that read the global \<^verbatim>\<open>llm\<close> all reach the
  same model (gpt-4o-mini), here \<open>predict_*\<close>.
\<close>

record 'd workflow =
  output_dir :: string
  verbose :: bool
  date_parse :: "string \<Rightarrow> 'd datetime option"
  predict_bundles :: "PatientInfo \<Rightarrow> py_error + ConditionBundle list predicted"
  predict_queries :: "string \<Rightarrow> ConditionBundle \<Rightarrow> py_error + string list predicted"
  retrieve :: "string \<Rightarrow> py_error + node list"
  predict_recommendation ::
    "string \<Rightarrow> ConditionBundle \<Rightarrow> string \<Rightarrow> py_error + GuidelineRecommendation predicted"
  predict_summary ::
    "string \<Rightarrow> (ConditionBundle \<times> GuidelineRecommendation) list \<Rightarrow>
       py_error + CaseSummary predicted"
  dump_patient_info :: "PatientInfo \<Rightarrow> json"
  validate_patient_info :: "json \<Rightarrow> py_error + PatientInfo"
  dump_bundles :: "ConditionBundle list \<Rightarrow> json"
  validate_bundles :: "json \<Rightarrow> py_error + ConditionBundle list"
  dump_recommendation :: "GuidelineRecommendation \<Rightarrow> json"

section \<open>Context, collector and run state\<close>

text \<open>A Python dict as the list of its items: setting a key keeps the key's place.\<close>

primrec dict_set :: "'k \<Rightarrow> 'v \<Rightarrow> ('k \<times> 'v) list \<Rightarrow> ('k \<times> 'v) list" where
  "dict_set k v [] = [(k, v)]"
| "dict_set k v (p # ps) = (if fst p = k then (k, v) # ps else p # dict_set k v ps)"

text \<open>
  Modelled from the spec: the Barrier Collector behind \<^verbatim>\<open>Context.collect_events\<close> belongs
  to the workflow library, which is not in the repository. Sections 3, 4.3 and 7(e): it
  holds the results received so far; the submission that makes their number reach the
  expected count gets the whole collection, every other one gets nothing; it releases
  once; a submission beyond the declared count is an internal error.
\<close>

record 'a collector =
  received :: "'a list"
  released :: bool

definition new_collector :: "'a collector" where
  "new_collector = \<lparr>received = [], released = False\<rparr>"

definition collect_events ::
  "'a collector \<Rightarrow> 'a \<Rightarrow> nat \<Rightarrow> py_error + ('a collector \<times> 'a list option)" where
  "collect_events c ev expected =
     (if released c \<or> expected \<le> length (received c) then Inl BarrierError
      else let r = received c @ [ev]
           in if length r = expected
              then Inr (c\<lparr>received := r, released := True\<rparr>, Some r)
              else Inr (c\<lparr>received := r\<rparr>, None))"

text \<open>
  The state of one run: the Context's store, the collector, the events waiting for their
  step, the StopEvent seen, the files, and what left the run (capability calls, streamed
  log messages).
\<close>

record run_state =
  ctx :: "(string \<times> ctx_value) list"
  collector :: "(ConditionBundle \<times> GuidelineRecommendation) collector"
  queue :: "event list"
  stopped :: "CaseSummary predicted option"
  files :: "(string \<times> file_content) list"
  calls :: "call list"
  stream :: "LogEvent list"

text \<open>
  Modelled from the spec: \<^verbatim>\<open>Context.set\<close> and \<^verbatim>\<open>Context.get\<close> are the workflow library's.
  Section 4.4: get on a missing key is a usage error, not a silent default.
\<close>

definition ctx_set :: "run_state \<Rightarrow> string \<Rightarrow> ctx_value \<Rightarrow> run_state" where
  "ctx_set s k v = s\<lparr>ctx := dict_set k v (ctx s)\<rparr>"

definition ctx_get :: "run_state \<Rightarrow> string \<Rightarrow> py_error + ctx_value" where
  "ctx_get s k = (case map_of (ctx s) k of None \<Rightarrow> Inl (ContextKeyError k) | Some v \<Rightarrow> Inr v)"

definition write_event_to_stream :: "run_state \<Rightarrow> string \<Rightarrow> run_state" where
  "write_event_to_stream s m = s\<lparr>stream := stream s @ [\<lparr>msg = m, delta = False\<rparr>]\<rparr>"

definition log_if :: "bool \<Rightarrow> run_state \<Rightarrow> string \<Rightarrow> run_state" where
  "log_if b s m = (if b then write_event_to_stream s m else s)"

definition record_call :: "run_state \<Rightarrow> call \<Rightarrow> run_state" where
  "record_call s c = s\<lparr>calls := calls s @ [c]\<rparr>"

definition path_exists :: "run_state \<Rightarrow> string \<Rightarrow> bool" where
  "path_exists s p = (map_of (files s) p \<noteq> None)"

text \<open>\<^verbatim>\<open>json.load(open(p, "r"))\<close>\<close>

definition json_load :: "run_state \<Rightarrow> string \<Rightarrow> py_error + json" where
  "json_load s p =
     (case map_of (files s) p of
        None \<Rightarrow> Inl FileNotFoundError
      | Some (Json j) \<Rightarrow> Inr j
      | Some (Lines [j]) \<Rightarrow> Inr j
      | Some (Lines js) \<Rightarrow> Inl JSONDecodeError)"

definition write_file :: "run_state \<Rightarrow> string \<Rightarrow> file_content \<Rightarrow> run_state" where
  "write_file s p f = s\<lparr>files := dict_set p f (files s)\<rparr>"

section \<open>The steps of GuidelineRecommendationWorkflow\<close>

text \<open>
  Each step takes the payload of its event and the run state, and gives the new state with
  the events it emits (the one it returns and those of \<^verbatim>\<open>ctx.send_event\<close>), or raises. The
  text of the log messages is shortened to ASCII; no property below reads it.
\<close>

definition demographic_str :: "PatientInfo \<Rightarrow> string" where
  "demographic_str p =
     ''            Given name: '' @ given_name p @ [CHR 0x0A] @
     ''            Family name: '' @ family_name p @ [CHR 0x0A] @
     ''            Birth date: '' @ birth_date p @ [CHR 0x0A] @
     ''            Gender: '' @ gender p"

fun join :: "string \<Rightarrow> string list \<Rightarrow> string" where
  "join sep [] = []"
| "join sep [x] = x"
| "join sep (x # y # ys) = x @ sep @ join sep (y # ys)"

text \<open>The two branches of parse_patient_info: lines 454 to 457 and lines 459 to 467.\<close>

definition patient_info_from_cache ::
  "'d workflow \<Rightarrow> run_state \<Rightarrow> py_error + (run_state \<times> PatientInfo)" where
  "patient_info_from_cache self s =
     (let s1 = log_if (verbose self) s ''## Patient Info'' in
      bnd (json_load s1 (output_dir self @ ''/patient_info.json'')) (\<lambda>patient_info_dict.
      bnd (validate_patient_info self patient_info_dict) (\<lambda>patient_info.
        Inr (s1, patient_info))))"

definition patient_info_from_file ::
  "'d::linorder workflow \<Rightarrow> string \<Rightarrow> run_state \<Rightarrow> py_error + (run_state \<times> PatientInfo)" where
  "patient_info_from_file self patient_json_path s =
     (let s1 = log_if (verbose self) s ''>> Reading patient info'' in
      bnd (json_load s1 patient_json_path) (\<lambda>bundle.
      bnd (parse_synthea_patient (date_parse self) bundle True) (\<lambda>patient_info.
        Inr (write_file s1 (output_dir self @ ''/patient_info.json'')
               (Json (dump_patient_info self patient_info)),
             patient_info))))"

definition parse_patient_info ::
  "'d::linorder workflow \<Rightarrow> string \<Rightarrow> run_state \<Rightarrow> py_error + (run_state \<times> event list)" where
  "parse_patient_info self patient_json_path s =
     bnd (if path_exists s (output_dir self @ ''/patient_info.json'')
          then patient_info_from_cache self s
          else patient_info_from_file self patient_json_path s)
       (\<lambda>(s2, patient_info).
          let s3 = log_if (verbose self) s2 ''>> json'';
              s4 = ctx_set s3 ''patient_info'' (CPatientInfo patient_info)
          in Inr (s4, [PatientInfoEvent patient_info]))"

text \<open>The module-level function of the same name as the step.\<close>

definition create_condition_bundles ::
  "'d workflow \<Rightarrow> PatientInfo \<Rightarrow> run_state \<Rightarrow>
     py_error + (run_state \<times> ConditionBundle list predicted)" where
  "create_condition_bundles self patient_data s =
     (let s1 = record_call s (PredictConditionBundles patient_data) in
      bnd (predict_bundles self patient_data) (\<lambda>condition_bundles. Inr (s1, condition_bundles)))"

text \<open>The two branches of the step: lines 486 to 488 and lines 490 to 492.\<close>

definition bundles_from_cache ::
  "'d workflow \<Rightarrow> run_state \<Rightarrow> py_error + (run_state \<times> ConditionBundle list)" where
  "bundles_from_cache self s =
     bnd (json_load s (output_dir self @ ''/condition_bundles.json'')) (\<lambda>d.
     bnd (validate_bundles self d) (\<lambda>condition_bundles. Inr (s, condition_bundles)))"

definition bundles_from_model ::
  "'d workflow \<Rightarrow> PatientInfo \<Rightarrow> run_state \<Rightarrow>
     py_error + (run_state \<times> ConditionBundle list)" where
  "bundles_from_model self patient_info s =
     bnd (create_condition_bundles self patient_info s) (\<lambda>(s1, r).
       case r of
         Conforms condition_bundles \<Rightarrow>
           Inr (write_file s1 (output_dir self @ ''/condition_bundles.json'')
                  (Json (dump_bundles self condition_bundles)),
                condition_bundles)
       | Other_model \<Rightarrow> Inl ValidationError
       | Not_a_model \<Rightarrow> Inl AttributeError)"

definition create_condition_bundles_step ::
  "'d workflow \<Rightarrow> PatientInfo \<Rightarrow> run_state \<Rightarrow> py_error + (run_state \<times> event list)" where
  "create_condition_bundles_step self patient_info s =
     bnd (if path_exists s (output_dir self @ ''/condition_bundles.json'')
          then bundles_from_cache self s
          else bundles_from_model self patient_info s)
       (\<lambda>(s2, condition_bundles). Inr (s2, [ConditionBundleEvent condition_bundles]))"

definition dispatch_guideline_match ::
  "'d workflow \<Rightarrow> ConditionBundle list \<Rightarrow> run_state \<Rightarrow> py_error + (run_state \<times> event list)" where
  "dispatch_guideline_match self bundles s =
     Inr (ctx_set s ''num_conditions'' (CNum (length bundles)), map MatchGuidelineEvent bundles)"

text \<open>\<^verbatim>\<open>{d.id_: d for d in cur_guideline_docs}\<close> and \<^verbatim>\<open>dict.update\<close>\<close>

definition dict_of_nodes :: "node list \<Rightarrow> (string \<times> node) list" where
  "dict_of_nodes ds = fold (\<lambda>d acc. dict_set (node_id d) d acc) ds []"

definition dict_update :: "('k \<times> 'v) list \<Rightarrow> ('k \<times> 'v) list \<Rightarrow> ('k \<times> 'v) list" where
  "dict_update d other = fold (\<lambda>kv acc. dict_set (fst kv) (snd kv) acc) other d"

text \<open>The loop over the generated queries (lines 531 to 537).\<close>

fun retrieve_loop ::
  "'d workflow \<Rightarrow> string list \<Rightarrow> run_state \<Rightarrow> (string \<times> node) list \<Rightarrow>
     py_error + (run_state \<times> (string \<times> node) list)" where
  "retrieve_loop self [] s guideline_docs_dict = Inr (s, guideline_docs_dict)"
| "retrieve_loop self (query # qs) s guideline_docs_dict =
     (let s1 = log_if (verbose self) s (''>> - '' @ query);
          s2 = record_call s1 (Retrieve query)
      in bnd (retrieve self query) (\<lambda>cur_guideline_docs.
           retrieve_loop self qs s2
             (dict_update guideline_docs_dict (dict_of_nodes cur_guideline_docs))))"

definition guideline_text_of :: "(string \<times> node) list \<Rightarrow> string" where
  "guideline_text_of guideline_docs_dict =
     join [CHR 0x0A, CHR 0x0A] (map (\<lambda>kv. content (snd kv)) guideline_docs_dict)"

definition handle_guideline_match ::
  "'d workflow \<Rightarrow> ConditionBundle \<Rightarrow> run_state \<Rightarrow> py_error + (run_state \<times> event list)" where
  "handle_guideline_match self bundle s =
     bnd (ctx_get s ''patient_info'') (\<lambda>v.
       case v of
         CNum n \<Rightarrow> Inl AttributeError
       | CPatientInfo patient_info \<Rightarrow>
           let s1 = record_call s (PredictGuidelineQueries (demographic_str patient_info) bundle) in
           bnd (predict_queries self (demographic_str patient_info) bundle) (\<lambda>guideline_queries.
             case guideline_queries of
               Conforms queries \<Rightarrow>
                 let s2 = write_event_to_stream s1 ''## Generating Queries'' in
                 bnd (retrieve_loop self queries s2 []) (\<lambda>(s3, guideline_docs_dict).
                   let guideline_text = guideline_text_of guideline_docs_dict;
                       s4 = log_if (verbose self) s3 ''## Found Guidelines'';
                       s5 = log_if (verbose self) s4 (take 200 guideline_text @ ''...'');
                       s6 = record_call s5
                              (PredictGuidelineRecommendation (demographic_str patient_info)
                                 bundle guideline_text)
                   in bnd (predict_recommendation self (demographic_str patient_info) bundle
                             guideline_text) (\<lambda>guideline_rec.
                        let s7 = write_event_to_stream s6 ''## Guidelines Recommendations'' in
                        bnd (if verbose self
                             then (case guideline_rec of
                                     Not_a_model \<Rightarrow> Inl AttributeError
                                   | _ \<Rightarrow> Inr (write_event_to_stream s7 ''>> json''))
                             else Inr s7) (\<lambda>s8.
                          case guideline_rec of
                            Conforms r \<Rightarrow> Inr (s8, [MatchGuidelineResultEvent bundle r])
                          | _ \<Rightarrow> Inl (ValueError ''Invalid guideline recommendation''))))
             | _ \<Rightarrow> Inl AttributeError))"

definition gather_guideline_match ::
  "'d workflow \<Rightarrow> ConditionBundle \<times> GuidelineRecommendation \<Rightarrow> run_state \<Rightarrow>
     py_error + (run_state \<times> event list)" where
  "gather_guideline_match self ev s =
     bnd (ctx_get s ''num_conditions'') (\<lambda>v.
       case v of
         CPatientInfo p \<Rightarrow> Inl TypeError
       | CNum num_conditions \<Rightarrow>
           bnd (collect_events (collector s) ev num_conditions) (\<lambda>(c, events).
             let s1 = s\<lparr>collector := c\<rparr> in
             case events of
               None \<Rightarrow> Inr (s1, [])
             | Some match_results \<Rightarrow>
                 let recs_path = output_dir self @ ''/guideline_recommendations.jsonl'';
                     s2 = write_file s1 recs_path
                            (Lines (map (\<lambda>br. dump_recommendation self (snd br)) match_results))
                 in Inr (s2, [GenerateCaseSummaryEvent match_results])))"

definition generate_output ::
  "'d workflow \<Rightarrow> (ConditionBundle \<times> GuidelineRecommendation) list \<Rightarrow> run_state \<Rightarrow>
     py_error + (run_state \<times> event list)" where
  "generate_output self condition_guideline_info s =
     (let s1 = log_if (verbose self) s ''## Case Summary'' in
      bnd (ctx_get s1 ''patient_info'') (\<lambda>v.
        case v of
          CNum n \<Rightarrow> Inl AttributeError
        | CPatientInfo patient_info \<Rightarrow>
            let demographic_info = demographic_str patient_info;
                s2 = record_call s1 (PredictCaseSummary demographic_info condition_guideline_info)
            in bnd (predict_summary self demographic_info condition_guideline_info)
                 (\<lambda>case_summary. Inr (s2, [StopEvent case_summary]))))"

section \<open>Step registration and the scheduler\<close>

datatype event_type =
    TStartEvent
  | TPatientInfoEvent
  | TConditionBundleEvent
  | TMatchGuidelineEvent
  | TMatchGuidelineResultEvent
  | TGenerateCaseSummaryEvent
  | TStopEvent
  | TLogEvent

fun event_type_of :: "event \<Rightarrow> event_type" where
  "event_type_of (StartEvent p) = TStartEvent"
| "event_type_of (PatientInfoEvent p) = TPatientInfoEvent"
| "event_type_of (ConditionBundleEvent bs) = TConditionBundleEvent"
| "event_type_of (MatchGuidelineEvent b) = TMatchGuidelineEvent"
| "event_type_of (MatchGuidelineResultEvent b r) = TMatchGuidelineResultEvent"
| "event_type_of (GenerateCaseSummaryEvent rs) = TGenerateCaseSummaryEvent"
| "event_type_of (StopEvent r) = TStopEvent"

datatype step =
    Parse_patient_info
  | Create_condition_bundles
  | Dispatch_guideline_match
  | Handle_guideline_match
  | Gather_guideline_match
  | Generate_output

text \<open>
  The \<^verbatim>\<open>@step\<close> methods of GuidelineRecommendationWorkflow with the annotations of their
  signatures: the class of \<^verbatim>\<open>ev\<close> and the class returned.
\<close>

record step_decl =
  step_name :: step
  accepts :: event_type
  produces :: event_type

definition workflow_steps :: "step_decl list" where
  "workflow_steps =
     [\<lparr>step_name = Parse_patient_info, accepts = TStartEvent, produces = TPatientInfoEvent\<rparr>,
      \<lparr>step_name = Create_condition_bundles, accepts = TPatientInfoEvent,
         produces = TConditionBundleEvent\<rparr>,
      \<lparr>step_name = Dispatch_guideline_match, accepts = TConditionBundleEvent,
         produces = TMatchGuidelineEvent\<rparr>,
      \<lparr>step_name = Handle_guideline_match, accepts = TMatchGuidelineEvent,
         produces = TMatchGuidelineResultEvent\<rparr>,
      \<lparr>step_name = Gather_guideline_match, accepts = TMatchGuidelineResultEvent,
         produces = TGenerateCaseSummaryEvent\<rparr>,
      \<lparr>step_name = Generate_output, accepts = TGenerateCaseSummaryEvent,
         produces = TStopEvent\<rparr>]"

text \<open>The event types that drive a step: all but the terminal one and the log.\<close>

definition routed_event_types :: "event_type list" where
  "routed_event_types =
     [TStartEvent, TPatientInfoEvent, TConditionBundleEvent, TMatchGuidelineEvent,
      TMatchGuidelineResultEvent, TGenerateCaseSummaryEvent]"

definition consumers :: "step_decl list \<Rightarrow> event_type \<Rightarrow> step_decl list" where
  "consumers steps t = filter (\<lambda>d. accepts d = t) steps"

text \<open>
  Modelled from the spec: the Step Registry / Router is the workflow library's and is not
  in the repository. Section 4.1: \<open>register\<close> binds an input event type to a handler and
  is validated eagerly, an unknown or duplicate binding fails construction; sections 3
  and 7(a): an event type without a step is a configuration error detected at
  construction. \<open>route\<close> resolves the unique handler of an event's type.
\<close>

definition register :: "step_decl list \<Rightarrow> step_decl \<Rightarrow> py_error + step_decl list" where
  "register reg d =
     (if accepts d \<notin> set routed_event_types
      then Inl (ConfigurationError ''unknown input event type'')
      else if consumers reg (accepts d) \<noteq> []
      then Inl (ConfigurationError ''duplicate input event type'')
      else Inr (reg @ [d]))"

fun register_all :: "step_decl list \<Rightarrow> step_decl list \<Rightarrow> py_error + step_decl list" where
  "register_all reg [] = Inr reg"
| "register_all reg (d # ds) = bnd (register reg d) (\<lambda>reg'. register_all reg' ds)"

definition construct_registry :: "step_decl list \<Rightarrow> py_error + step_decl list" where
  "construct_registry steps =
     bnd (register_all [] steps) (\<lambda>reg.
       if list_all (\<lambda>t. consumers reg t \<noteq> []) routed_event_types then Inr reg
       else Inl (ConfigurationError ''event type without a step''))"

definition route :: "step_decl list \<Rightarrow> event_type \<Rightarrow> py_error + step_decl" where
  "route reg t =
     (case consumers reg t of
        [d] \<Rightarrow> Inr d
      | _ \<Rightarrow> Inl (ConfigurationError ''no unique step''))"

text \<open>
  Calling a step method with an event. The last equation, a step handed an event of
  another class, is not reached through the table above.
\<close>

fun run_step ::
  "'d::linorder workflow \<Rightarrow> step \<Rightarrow> event \<Rightarrow> run_state \<Rightarrow>
     py_error + (run_state \<times> event list)" where
  "run_step self Parse_patient_info (StartEvent path) s = parse_patient_info self path s"
| "run_step self Create_condition_bundles (PatientInfoEvent p) s =
     create_condition_bundles_step self p s"
| "run_step self Dispatch_guideline_match (ConditionBundleEvent bs) s =
     dispatch_guideline_match self bs s"
| "run_step self Handle_guideline_match (MatchGuidelineEvent b) s =
     handle_guideline_match self b s"
| "run_step self Gather_guideline_match (MatchGuidelineResultEvent b r) s =
     gather_guideline_match self (b, r) s"
| "run_step self Generate_output (GenerateCaseSummaryEvent rs) s = generate_output self rs s"
| "run_step self st ev s = Inl TypeError"

definition dispatch ::
  "'d::linorder workflow \<Rightarrow> step_decl list \<Rightarrow> event \<Rightarrow> run_state \<Rightarrow>
     py_error + (run_state \<times> event list)" where
  "dispatch self reg ev s =
     bnd (route reg (event_type_of ev)) (\<lambda>d. run_step self (step_name d) ev s)"

text \<open>
  Modelled from the spec: the Scheduler is the workflow library's and is not in the
  repository. Sections 2, 4.2 and 7: a work queue of pending events; a dequeued event is
  dispatched to its step and the events the step emits are enqueued; a StopEvent is kept
  until nothing else is pending and then ends the run with its result; an error raised
  in a step ends the run as failed, and nothing else of the run is returned. Steps run
  one at a time here, and the order in which pending events are taken is a parameter, the
  schedule: its next number picks the position in the queue. With no event pending and no
  StopEvent seen the run stalls (the workflow is built with \<^verbatim>\<open>timeout=None\<close>).
  \<open>Running\<close> is a run whose schedule ended before the run did.
\<close>

datatype outcome =
    Completed "CaseSummary predicted" run_state
  | Failed py_error
  | Stalled run_state
  | Running run_state

definition settled :: "run_state \<Rightarrow> outcome" where
  "settled s = (case stopped s of Some r \<Rightarrow> Completed r s | None \<Rightarrow> Stalled s)"

definition take_event :: "nat \<Rightarrow> run_state \<Rightarrow> event \<times> run_state" where
  "take_event k s =
     (let i = k mod length (queue s)
      in (queue s ! i, s\<lparr>queue := take i (queue s) @ drop (Suc i) (queue s)\<rparr>))"

definition enqueue :: "run_state \<times> event list \<Rightarrow> run_state" where
  "enqueue r = (fst r)\<lparr>queue := queue (fst r) @ snd r\<rparr>"

definition step ::
  "'d::linorder workflow \<Rightarrow> step_decl list \<Rightarrow> nat \<Rightarrow> run_state \<Rightarrow> outcome" where
  "step self reg k s =
     (case take_event k s of
        (StopEvent r, s1) \<Rightarrow> Running (s1\<lparr>stopped := Some r\<rparr>)
      | (ev, s1) \<Rightarrow>
          (case dispatch self reg ev s1 of
             Inl e \<Rightarrow> Failed e
           | Inr r \<Rightarrow> Running (enqueue r)))"

fun run_steps ::
  "'d::linorder workflow \<Rightarrow> step_decl list \<Rightarrow> nat list \<Rightarrow> run_state \<Rightarrow> outcome" where
  "run_steps self reg [] s = (if queue s = [] then settled s else Running s)"
| "run_steps self reg (k # ks) s =
     (if queue s = [] then settled s
      else case step self reg k s of
        Running s' \<Rightarrow> run_steps self reg ks s'
      | result \<Rightarrow> result)"

definition initial_state :: "(string \<times> file_content) list \<Rightarrow> string \<Rightarrow> run_state" where
  "initial_state fs patient_json_path =
     \<lparr>ctx = [], collector = new_collector, queue = [StartEvent patient_json_path],
      stopped = None, files = fs, calls = [], stream = []\<rparr>"

text \<open>
  \<^verbatim>\<open>run_workflow_async\<close>: the log messages of the stream and the awaited result, an
  exception, or no return at all. The workflow object is the one built at module level
  from \<open>workflow_steps\<close>.
\<close>

datatype 'a awaited = Returns 'a | Raises py_error | Never_returns | Unfinished

definition run_workflow_async ::
  "'d::linorder workflow \<Rightarrow> nat list \<Rightarrow> (string \<times> file_content) list \<Rightarrow> string \<Rightarrow>
     (string list \<times> CaseSummary predicted) awaited" where
  "run_workflow_async self sched fs patient_json_path =
     (case construct_registry workflow_steps of
        Inl e \<Rightarrow> Raises e
      | Inr reg \<Rightarrow>
          (case run_steps self reg sched (initial_state fs patient_json_path) of
             Completed response s \<Rightarrow> Returns (map msg (stream s), response)
           | Failed e \<Rightarrow> Raises e
           | Stalled s \<Rightarrow> Never_returns
           | Running s \<Rightarrow> Unfinished))"

section \<open>An example bundle\<close>

text \<open>
  Two Patient entries, four conditions (one of them resolved, one on the exclusion list)
  and four encounters. The example date parser reads the digits of a date
  \<^verbatim>\<open>YYYY-MM-DD\<close> as one number and gives a naive datetime.
\<close>

definition ex_patient :: "string \<Rightarrow> json" where
  "ex_patient g = JObj [(''resource'', JObj [(''resourceType'', JStr ''Patient''),
     (''name'', JArr [JObj [(''given'', JArr [JStr g]), (''family'', JStr ''Lee'')]]),
     (''birthDate'', JStr ''1990-01-01''), (''gender'', JStr ''female'')])]"

definition ex_condition :: "string \<Rightarrow> string \<Rightarrow> json" where
  "ex_condition d st = JObj [(''resource'', JObj [(''resourceType'', JStr ''Condition''),
     (''code'', JObj [(''coding'', JArr [JObj [(''code'', JStr ''42''), (''display'', JStr d)]])]),
     (''clinicalStatus'', JObj [(''coding'', JArr [JObj [(''code'', JStr st)]])])])]"

definition ex_encounter :: "string \<Rightarrow> json" where
  "ex_encounter s = JObj [(''resource'', JObj [(''resourceType'', JStr ''Encounter''),
     (''period'', JObj [(''start'', JStr s)])])]"

definition ex_entries :: "json list" where
  "ex_entries = [ex_patient ''Ann'', ex_condition ''Asthma'' ''active'',
     ex_condition ''Flu'' ''resolved'', ex_condition ''Eczema'' ''active'',
     ex_condition ''Medication review due (situation)'' ''active'',
     ex_encounter ''2021-03-05'', ex_encounter ''2019-07-11'', ex_encounter ''2023-01-20'',
     ex_encounter ''2022-10-02'',
     ex_patient ''Bob'']"

definition ex_bundle :: json where
  "ex_bundle = JObj [(''entry'', JArr ex_entries)]"

fun digit_of :: "char \<Rightarrow> int option" where
  "digit_of c = (if 48 \<le> (of_char c :: int) \<and> (of_char c :: int) \<le> 57
                 then Some (of_char c - 48) else None)"

definition ex_parse :: "string \<Rightarrow> int datetime option" where
  "ex_parse s = Some (Naive (foldl (\<lambda>n d. 10 * n + d) 0 (List.map_filter digit_of s)))"

definition ex_info :: PatientInfo where
  "ex_info = \<lparr>given_name = ''Bob'', family_name = ''Lee'',
        birth_date = ''1990-01-01'', gender = ''female'',
        conditions =
          [\<lparr>code = ''42'', display = ''Asthma'', clinical_status = ''active''\<rparr>,
           \<lparr>code = ''42'', display = ''Flu'', clinical_status = ''resolved''\<rparr>,
           \<lparr>code = ''42'', display = ''Eczema'', clinical_status = ''active''\<rparr>],
        recent_encounters =
          [\<lparr>date = ''2021-03-05'', reason_display = None, type_display = None\<rparr>,
           \<lparr>date = ''2022-10-02'', reason_display = None, type_display = None\<rparr>,
           \<lparr>date = ''2023-01-20'', reason_display = None, type_display = None\<rparr>],
        current_medications = []\<rparr>"

text \<open>
  An example workflow object. The model answers with one bundle per condition and two
  queries per bundle; the retriever returns the node \<open>n1\<close> for every query, next to a node
  named after the query. The cache files hold the given name and the display names only.
\<close>

definition ex_active :: PatientInfo where
  "ex_active = ex_info\<lparr>conditions :=
     [\<lparr>code = ''42'', display = ''Asthma'', clinical_status = ''active''\<rparr>,
      \<lparr>code = ''42'', display = ''Eczema'', clinical_status = ''active''\<rparr>]\<rparr>"

definition ex_bundle_of :: "string \<Rightarrow> ConditionBundle" where
  "ex_bundle_of n = \<lparr>condition = \<lparr>code = ''42'', display = n, clinical_status = ''active''\<rparr>,
     encounters = [], medications = []\<rparr>"

definition ex_recommendation :: "string \<Rightarrow> GuidelineRecommendation" where
  "ex_recommendation t =
     \<lparr>guideline_source = ''index'', recommendation_summary = t, reference_section = None\<rparr>"

definition ex_summary :: "(ConditionBundle \<times> GuidelineRecommendation) list \<Rightarrow> CaseSummary" where
  "ex_summary rs =
     \<lparr>patient_name = ''Bob Lee'', age = 34, overall_assessment = ''stable'',
      condition_summaries =
        map (\<lambda>br. \<lparr>condition_display = display (condition (fst br)),
                      summary = guideline_source (snd br)\<rparr>) rs\<rparr>"

definition ex_workflow :: "int workflow" where
  "ex_workflow =
     \<lparr>output_dir = ''data_out/workflow_output'', verbose = True, date_parse = ex_parse,
      predict_bundles = (\<lambda>p. Inr (Conforms (map (\<lambda>c. ex_bundle_of (display c)) (conditions p)))),
      predict_queries = (\<lambda>d b. Inr (Conforms [display (condition b), ''therapy''])),
      retrieve = (\<lambda>q. Inr [\<lparr>node_id = ''n1'', content = ''General guideline''\<rparr>,
                            \<lparr>node_id = q, content = ''Guideline on '' @ q\<rparr>]),
      predict_recommendation = (\<lambda>d b t. Inr (Conforms (ex_recommendation t))),
      predict_summary = (\<lambda>d rs. Inr (Conforms (ex_summary rs))),
      dump_patient_info = (\<lambda>p. JStr (given_name p)),
      validate_patient_info =
        (\<lambda>j. case j of JStr g \<Rightarrow> Inr (ex_active\<lparr>given_name := g\<rparr>)
                        | _ \<Rightarrow> Inl ValidationError),
      dump_bundles = (\<lambda>bs. JArr (map (\<lambda>b. JStr (display (condition b))) bs)),
      validate_bundles =
        (\<lambda>j. case j of JArr ds \<Rightarrow> map_err (\<lambda>d. bnd (as_str d) (\<lambda>n. Inr (ex_bundle_of n))) ds
                        | _ \<Rightarrow> Inl ValidationError),
      dump_recommendation = (\<lambda>r. JStr (recommendation_summary r))\<rparr>"

definition ex_files :: "(string \<times> file_content) list" where
  "ex_files = [(''uploaded_patient.json'', Json ex_bundle)]"

text \<open>What the retriever gave for a list of queries, in the order of the queries.\<close>

definition retrieved_nodes :: "'d workflow \<Rightarrow> string list \<Rightarrow> node list" where
  "retrieved_nodes self qs =
     concat (map (\<lambda>q. case retrieve self q of Inr ns \<Rightarrow> ns | Inl e \<Rightarrow> []) qs)"

text \<open>
  Two states of the same run that differ at most in what left the run (calls, stream).
\<close>

definition same_run :: "run_state \<Rightarrow> run_state \<Rightarrow> bool" where
  "same_run s s' \<longleftrightarrow> ctx s' = ctx s \<and> collector s' = collector s \<and> queue s' = queue s \<and>
     stopped s' = stopped s \<and> files s' = files s"

text \<open>A state of the example run in which parse_patient_info has set the patient.\<close>

definition ex_state :: run_state where
  "ex_state = ctx_set (initial_state ex_files ''uploaded_patient.json'') ''patient_info''
     (CPatientInfo ex_active)"

definition ex_two_entry_steps :: "step_decl list" where
  "ex_two_entry_steps =
     \<lparr>step_name = Generate_output, accepts = TStartEvent, produces = TStopEvent\<rparr> #
     workflow_steps"

text \<open>
  gather_guideline_match run once for each arriving MatchGuidelineResultEvent, in the
  order of arrival, with the events these runs emit.
\<close>

fun gather_all ::
  "'d workflow \<Rightarrow> (ConditionBundle \<times> GuidelineRecommendation) list \<Rightarrow> run_state \<Rightarrow>
     py_error + (run_state \<times> event list)" where
  "gather_all self [] s = Inr (s, [])"
| "gather_all self (ev # evs) s =
     bnd (gather_guideline_match self ev s) (\<lambda>r1.
     bnd (gather_all self evs (fst r1)) (\<lambda>r2. Inr (fst r2, snd r1 @ snd r2)))"

text \<open>A workflow whose model finds no condition bundle for the patient.\<close>

definition ex_no_bundles :: "int workflow" where
  "ex_no_bundles = ex_workflow\<lparr>predict_bundles := (\<lambda>p. Inr (Conforms []))\<rparr>"

text \<open>
  The example run after dispatch_guideline_match has fanned out the two bundles, and their
  results in the reverse order.
\<close>

definition ex_dispatched :: run_state where
  "ex_dispatched = ctx_set ex_state ''num_conditions'' (CNum 2)"

definition ex_arrivals :: "(ConditionBundle \<times> GuidelineRecommendation) list" where
  "ex_arrivals =
     [(ex_bundle_of ''Eczema'', ex_recommendation ''Guideline on Eczema''),
      (ex_bundle_of ''Asthma'', ex_recommendation ''Guideline on Asthma'')]"

text \<open>
  The states of a run between the fan-out and the fan-in: the patient and the number of
  bundles are in the Context, the collector has not released, no StopEvent was seen, and
  every bundle is either waiting as a MatchGuidelineEvent, or waiting as a
  MatchGuidelineResultEvent, or received by the collector.
\<close>

fun is_match_event :: "event \<Rightarrow> bool" where
  "is_match_event (MatchGuidelineEvent b) = True"
| "is_match_event ev = False"

fun is_fanout_event :: "event \<Rightarrow> bool" where
  "is_fanout_event (MatchGuidelineEvent b) = True"
| "is_fanout_event (MatchGuidelineResultEvent b r) = True"
| "is_fanout_event ev = False"

definition fanout_state :: "PatientInfo \<Rightarrow> run_state \<Rightarrow> bool" where
  "fanout_state p s \<longleftrightarrow>
     ctx_get s ''patient_info'' = Inr (CPatientInfo p) \<and>
     ctx_get s ''num_conditions'' =
       Inr (CNum (length (queue s) + length (received (collector s)))) \<and>
     \<not> released (collector s) \<and> stopped s = None \<and> list_all is_fanout_event (queue s)"

definition steps_left :: "run_state \<Rightarrow> nat" where
  "steps_left s = length (queue s) + length (filter is_match_event (queue s))"

text \<open>
  The example workflow with a model that fails on the queries for the second bundle.
\<close>

definition ex_failing :: "int workflow" where
  "ex_failing = ex_workflow\<lparr>predict_queries :=
     (\<lambda>d b. if display (condition b) = ''Eczema'' then Inl (CapabilityError ''quota exceeded'')
            else Inr (Conforms [display (condition b), ''therapy'']))\<rparr>"

section \<open>Properties of parse_synthea_patient\<close>

lemma bnd_simps [simp]: "bnd (Inl e) f = Inl e" "bnd (Inr x) f = f x"
  by (simp_all add: bnd_def)

lemma bnd_eq_Inr: "bnd m f = Inr y \<longleftrightarrow> (\<exists>x. m = Inr x \<and> f x = Inr y)"
  by (cases m) auto

lemma map_err_length: "map_err f xs = Inr ys \<Longrightarrow> length ys = length xs"
  by (induction xs arbitrary: ys) (auto simp: bnd_eq_Inr)

lemma map_err_nth: "map_err f xs = Inr ys \<Longrightarrow> i < length xs \<Longrightarrow> f (xs ! i) = Inr (ys ! i)"
proof (induction xs arbitrary: ys i)
  case Nil
  then show ?case by simp
next
  case (Cons x xs)
  then show ?case by (cases i) (auto simp: bnd_eq_Inr)
qed

lemma resources_of_single:
  "py_get e ''resource'' (JObj []) = Inr r \<Longrightarrow> py_get r ''resourceType'' JNull = Inr rt \<Longrightarrow>
     resources_of t [e] = (if rt = JStr t then [r] else [])"
  by (simp add: resources_of_def entry_resource_def has_type_def)

lemma scan_entry_Inr:
  assumes "scan_entry s e = Inr s'"
  shows "condition_resources s' = condition_resources s @ resources_of ''Condition'' [e]"
    and "encounter_resources s' = encounter_resources s @ resources_of ''Encounter'' [e]"
    and "medication_requests s' = medication_requests s @ resources_of ''MedicationRequest'' [e]"
    and "patient_resource s' = (if resources_of ''Patient'' [e] = [] then patient_resource s
           else Some (last (resources_of ''Patient'' [e])))"
proof -
  from assms obtain r rt where r: "py_get e ''resource'' (JObj []) = Inr r"
    and rt: "py_get r ''resourceType'' JNull = Inr rt"
    and s': "s' = (if rt = JStr ''Patient'' then s\<lparr>patient_resource := Some r\<rparr>
            else if rt = JStr ''Condition''
              then s\<lparr>condition_resources := condition_resources s @ [r]\<rparr>
            else if rt = JStr ''Encounter''
              then s\<lparr>encounter_resources := encounter_resources s @ [r]\<rparr>
            else if rt = JStr ''MedicationRequest''
              then s\<lparr>medication_requests := medication_requests s @ [r]\<rparr>
            else s)"
    unfolding scan_entry_def bnd_eq_Inr by blast
  note ro = resources_of_single [OF r rt]
  show "condition_resources s' = condition_resources s @ resources_of ''Condition'' [e]"
    unfolding ro s' by simp
  show "encounter_resources s' = encounter_resources s @ resources_of ''Encounter'' [e]"
    unfolding ro s' by simp
  show "medication_requests s' = medication_requests s @ resources_of ''MedicationRequest'' [e]"
    unfolding ro s' by simp
  show "patient_resource s' = (if resources_of ''Patient'' [e] = [] then patient_resource s
           else Some (last (resources_of ''Patient'' [e])))"
    unfolding ro s' by simp
qed

lemma resources_of_Cons: "resources_of t (e # es) = resources_of t [e] @ resources_of t es"
  by (simp add: resources_of_def)

lemma scan_entries_Inr:
  "scan_entries s es = Inr s' \<Longrightarrow>
     condition_resources s' = condition_resources s @ resources_of ''Condition'' es \<and>
     encounter_resources s' = encounter_resources s @ resources_of ''Encounter'' es \<and>
     medication_requests s' = medication_requests s @ resources_of ''MedicationRequest'' es \<and>
     patient_resource s' = (if resources_of ''Patient'' es = [] then patient_resource s
           else Some (last (resources_of ''Patient'' es)))"
proof (induction es arbitrary: s)
  case Nil
  then show ?case by (simp add: resources_of_def)
next
  case (Cons e es)
  from Cons.prems obtain s1 where s1: "scan_entry s e = Inr s1" and rest: "scan_entries s1 es = Inr s'"
    by (auto simp: bnd_eq_Inr)
  note IH = Cons.IH [OF rest]
  note st = scan_entry_Inr [OF s1]
  have c: "condition_resources s' = condition_resources s @ resources_of ''Condition'' (e # es)"
    using IH st(1) by (simp add: resources_of_Cons [of _ e es])
  have n: "encounter_resources s' = encounter_resources s @ resources_of ''Encounter'' (e # es)"
    using IH st(2) by (simp add: resources_of_Cons [of _ e es])
  have m: "medication_requests s' = medication_requests s @ resources_of ''MedicationRequest'' (e # es)"
    using IH st(3) by (simp add: resources_of_Cons [of _ e es])
  have p: "patient_resource s' = (if resources_of ''Patient'' (e # es) = [] then patient_resource s
           else Some (last (resources_of ''Patient'' (e # es))))"
    using IH st(4) by (simp add: resources_of_Cons [of _ e es])
  show ?case using c n m p by blast
qed


lemma as_str_Inr: "as_str x = Inr s \<longleftrightarrow> x = JStr s"
  by (cases x) auto

lemma mk_ConditionInfo_Inr:
  "mk_ConditionInfo c d s = Inr ci \<longleftrightarrow>
     (\<exists>a b t. c = JStr a \<and> d = JStr b \<and> s = JStr t \<and>
        ci = \<lparr>code = a, display = b, clinical_status = t\<rparr>)"
  by (auto simp: mk_ConditionInfo_def bnd_eq_Inr as_str_Inr)

lemma condition_step_sound:
  assumes "condition_step fa c = Inr cis" and "ci \<in> set cis"
  shows "display ci \<notin> set excluded_conditions \<and> (fa \<longrightarrow> clinical_status ci = ''active'')"
proof -
  from assms(1) obtain cc cd st ex where f: "condition_fields c = Inr (cc, cd, st)"
    and ex: "py_in_strs cd excluded_conditions = Inr ex"
    and rest: "(if \<not> ex then
         (if fa then
            (if st = JStr ''active''
             then bnd (mk_ConditionInfo cc cd st) (\<lambda>ci. Inr [ci])
             else Inr [])
          else bnd (mk_ConditionInfo cc cd st) (\<lambda>ci. Inr [ci]))
       else Inr []) = Inr cis"
    by (auto simp: condition_step_def bnd_eq_Inr split: prod.splits)
  from rest assms(2) have nex: "\<not> ex" and act: "fa \<longrightarrow> st = JStr ''active''"
    and mk: "mk_ConditionInfo cc cd st = Inr ci"
    by (auto split: if_splits simp: bnd_eq_Inr)
  from mk obtain a b t where cd: "cd = JStr b" and st: "st = JStr t"
    and ci: "ci = \<lparr>code = a, display = b, clinical_status = t\<rparr>"
    unfolding mk_ConditionInfo_Inr by blast
  from ex nex cd have "b \<notin> set excluded_conditions" by simp
  with act st ci show ?thesis by simp
qed

lemma condition_step_complete:
  assumes "condition_step fa c = Inr cis"
    and "condition_fields c = Inr (JStr a, JStr b, JStr t)"
    and "b \<notin> set excluded_conditions" and "\<not> fa \<or> t = ''active''"
  shows "cis = [\<lparr>code = a, display = b, clinical_status = t\<rparr>]"
  using assms by (auto simp: condition_step_def mk_ConditionInfo_def split: if_splits)

lemma condition_loop_sound:
  "condition_loop fa cs = Inr out \<Longrightarrow> ci \<in> set out \<Longrightarrow>
     \<exists>c\<in>set cs. \<exists>cis. condition_step fa c = Inr cis \<and> ci \<in> set cis"
  by (induction cs arbitrary: out) (auto simp: bnd_eq_Inr)

lemma condition_loop_complete:
  "condition_loop fa cs = Inr out \<Longrightarrow> c \<in> set cs \<Longrightarrow>
     \<exists>cis. condition_step fa c = Inr cis \<and> set cis \<subseteq> set out"
proof (induction cs arbitrary: out)
  case Nil
  then show ?case by simp
next
  case (Cons x cs)
  from Cons.prems(1) obtain new rest where new: "condition_step fa x = Inr new"
    and rest: "condition_loop fa cs = Inr rest" and out: "out = new @ rest"
    by (auto simp: bnd_eq_Inr)
  show ?case
  proof (cases "c = x")
    case True
    with new out show ?thesis by auto
  next
    case False
    with Cons.prems(2) have "c \<in> set cs" by simp
    from Cons.IH [OF rest this] out show ?thesis by auto
  qed
qed

lemma parse_synthea_patient_Inr:
  assumes "parse_synthea_patient parse bundle fa = Inr p"
  shows "\<exists>es s patient srt. bundle_entries bundle = Inr es \<and>
     scan_entries no_resources es = Inr s \<and> patient_resource s = Some patient \<and>
     truthy patient \<and>
     demographics patient =
       Inr (JStr (given_name p), JStr (family_name p), JStr (birth_date p), JStr (gender p)) \<and>
     condition_loop fa (condition_resources s) = Inr (conditions p) \<and>
     sorted_by_date parse (encounter_resources s) = Inr srt \<and>
     map_err encounter_info (map snd (last3 srt)) = Inr (recent_encounters p) \<and>
     medication_loop (medication_requests s) = Inr (current_medications p)"
proof -
  from assms obtain es s where es: "bundle_entries bundle = Inr es"
    and s: "scan_entries no_resources es = Inr s"
    and r1: "(case patient_resource s of
         None \<Rightarrow> Inl (ValueError ''No Patient resource found in the provided file.'')
       | Some patient \<Rightarrow>
           if \<not> truthy patient
           then Inl (ValueError ''No Patient resource found in the provided file.'')
           else
             bnd (demographics patient) (\<lambda>(gn, fn, bd, g).
             bnd (condition_loop fa (condition_resources s)) (\<lambda>condition_info_list.
             bnd (sorted_by_date parse (encounter_resources s)) (\<lambda>encounters_sorted.
             bnd (map_err encounter_info (map snd (last3 encounters_sorted)))
               (\<lambda>encounter_info_list.
             bnd (medication_loop (medication_requests s)) (\<lambda>medication_info_list.
             bnd (as_str gn) (\<lambda>gn'.
             bnd (as_str fn) (\<lambda>fn'.
             bnd (as_str bd) (\<lambda>bd'.
             bnd (as_str g) (\<lambda>g'.
               Inr \<lparr>given_name = gn', family_name = fn', birth_date = bd', gender = g',
                    conditions = condition_info_list,
                    recent_encounters = encounter_info_list,
                    current_medications = medication_info_list\<rparr>)))))))))) = Inr p"
    unfolding parse_synthea_patient_def bnd_eq_Inr by blast
  from r1 obtain patient where pr: "patient_resource s = Some patient" and tr: "truthy patient"
    and r2: "bnd (demographics patient) (\<lambda>(gn, fn, bd, g).
             bnd (condition_loop fa (condition_resources s)) (\<lambda>condition_info_list.
             bnd (sorted_by_date parse (encounter_resources s)) (\<lambda>encounters_sorted.
             bnd (map_err encounter_info (map snd (last3 encounters_sorted)))
               (\<lambda>encounter_info_list.
             bnd (medication_loop (medication_requests s)) (\<lambda>medication_info_list.
             bnd (as_str gn) (\<lambda>gn'.
             bnd (as_str fn) (\<lambda>fn'.
             bnd (as_str bd) (\<lambda>bd'.
             bnd (as_str g) (\<lambda>g'.
               Inr \<lparr>given_name = gn', family_name = fn', birth_date = bd', gender = g',
                    conditions = condition_info_list,
                    recent_encounters = encounter_info_list,
                    current_medications = medication_info_list\<rparr>))))))))) = Inr p"
    by (cases "patient_resource s") (auto split: if_splits)
  from r2 obtain gn fn bd g cl srt el ml where cl: "condition_loop fa (condition_resources s) = Inr cl"
    and srt: "sorted_by_date parse (encounter_resources s) = Inr srt"
    and el: "map_err encounter_info (map snd (last3 srt)) = Inr el"
    and ml: "medication_loop (medication_requests s) = Inr ml"
    and p: "p = \<lparr>given_name = gn, family_name = fn, birth_date = bd, gender = g,
                    conditions = cl, recent_encounters = el, current_medications = ml\<rparr>"
    and d': "demographics patient = Inr (JStr gn, JStr fn, JStr bd, JStr g)"
    by (auto simp: bnd_eq_Inr as_str_Inr split: prod.splits)
  show ?thesis
    using es s pr tr d' cl srt el ml unfolding p by simp
qed

text \<open>
  C10. Every condition of the returned PatientInfo has a display outside the excluded set
  and, when \<open>filter_active\<close> holds, the clinical status ``active''. Conversely every
  Condition resource of the bundle whose display is not excluded is in the result, whatever
  its clinical status when \<open>filter_active\<close> is off (and when it is on, if the status is
  ``active'').
\<close>

theorem C10_conditions_filtered:
  assumes "parse_synthea_patient parse bundle filter_active = Inr p"
  shows "(\<forall>ci \<in> set (conditions p).
            display ci \<notin> set excluded_conditions \<and>
            (filter_active \<longrightarrow> clinical_status ci = ''active'')) \<and>
         (\<forall>es c a b t. bundle_entries bundle = Inr es \<longrightarrow>
            c \<in> set (resources_of ''Condition'' es) \<longrightarrow>
            condition_fields c = Inr (JStr a, JStr b, JStr t) \<longrightarrow>
            b \<notin> set excluded_conditions \<longrightarrow>
            (\<not> filter_active \<or> t = ''active'') \<longrightarrow>
            \<lparr>code = a, display = b, clinical_status = t\<rparr> \<in> set (conditions p))"
proof -
  from parse_synthea_patient_Inr [OF assms] obtain es s where
    es: "bundle_entries bundle = Inr es" and s: "scan_entries no_resources es = Inr s"
    and cl: "condition_loop filter_active (condition_resources s) = Inr (conditions p)"
    by blast
  from scan_entries_Inr [OF s] have cr: "condition_resources s = resources_of ''Condition'' es"
    by (simp add: no_resources_def)
  have sound: "display ci \<notin> set excluded_conditions \<and>
            (filter_active \<longrightarrow> clinical_status ci = ''active'')" if "ci \<in> set (conditions p)" for ci
    using condition_loop_sound [OF cl that] condition_step_sound by blast
  have complete: "\<lparr>code = a, display = b, clinical_status = t\<rparr> \<in> set (conditions p)"
    if "bundle_entries bundle = Inr es'" "c \<in> set (resources_of ''Condition'' es')"
      "condition_fields c = Inr (JStr a, JStr b, JStr t)" "b \<notin> set excluded_conditions"
      "\<not> filter_active \<or> t = ''active''" for es' c a b t
  proof -
    from that(1) es have "es' = es" by simp
    with that(2) cr have "c \<in> set (condition_resources s)" by simp
    from condition_loop_complete [OF cl this] obtain cis where
      st: "condition_step filter_active c = Inr cis" and sub: "set cis \<subseteq> set (conditions p)"
      by blast
    from condition_step_complete [OF st that(3) that(4) that(5)] sub show ?thesis by simp
  qed
  show ?thesis using sound complete by blast
qed

lemma ex_bundle_parsed: "parse_synthea_patient ex_parse ex_bundle False = Inr ex_info"
  by code_simp

lemma ex_bundle_entries: "bundle_entries ex_bundle = Inr ex_entries"
  by (simp add: bundle_entries_def ex_bundle_def)

theorem C10_witness:
  "parse_synthea_patient ex_parse ex_bundle False = Inr ex_info \<and>
   list_all (\<lambda>ci. display ci \<notin> set excluded_conditions) (conditions ex_info) \<and>
   \<lparr>code = ''42'', display = ''Flu'', clinical_status = ''resolved''\<rparr> \<in> set (conditions ex_info)"
proof -
  note th = C10_conditions_filtered [OF ex_bundle_parsed]
  have c: "entry_resource (ex_condition ''Flu'' ''resolved'') \<in> set (resources_of ''Condition'' ex_entries)"
    by code_simp
  have f: "condition_fields (entry_resource (ex_condition ''Flu'' ''resolved'')) =
      Inr (JStr ''42'', JStr ''Flu'', JStr ''resolved'')"
    by code_simp
  have x: "''Flu'' \<notin> set excluded_conditions" by code_simp
  from th ex_bundle_entries c f x show ?thesis
    using ex_bundle_parsed unfolding list_all_iff by blast
qed

lemma last3_length: "length (last3 xs) = min 3 (length xs)"
  by (simp add: last3_def)

lemma last3_split: "xs = take (length xs - 3) xs @ last3 xs"
  by (simp add: last3_def)

lemma sorted_by_date_Inr:
  "sorted_by_date parse encs = Inr srt \<Longrightarrow>
     \<exists>keys. map_err (get_encounter_date parse) encs = Inr keys \<and> comparable keys \<and>
       srt = sort_key (\<lambda>kr. instant (fst kr)) (zip keys encs)"
  by (auto simp: sorted_by_date_def bnd_eq_Inr split: if_splits)

lemma map_err_zip:
  "map_err f xs = Inr ys \<Longrightarrow> (y, x) \<in> set (zip ys xs) \<Longrightarrow> f x = Inr y"
proof (induction xs arbitrary: ys)
  case Nil
  then show ?case by simp
next
  case (Cons a xs)
  from Cons.prems(1) obtain b bs where b: "f a = Inr b" and bs: "map_err f xs = Inr bs"
    and ys: "ys = b # bs"
    by (auto simp: bnd_eq_Inr)
  from Cons.prems(2) ys have "(y, x) = (b, a) \<or> (y, x) \<in> set (zip bs xs)" by simp
  then show ?case
  proof
    assume "(y, x) = (b, a)"
    with b show ?thesis by simp
  next
    assume "(y, x) \<in> set (zip bs xs)"
    from Cons.IH [OF bs this] show ?thesis .
  qed
qed

lemma py_get_start:
  "py_get period ''start'' JNull = Inr (JStr s) \<Longrightarrow> py_get period ''start'' (JStr '''') = Inr (JStr s)"
  by (cases period) (auto split: option.splits)

lemma get_encounter_date_Inr:
  assumes "get_encounter_date parse e = Inr k"
  shows "\<exists>period s. py_get e ''period'' (JObj []) = Inr period \<and>
           py_get period ''start'' JNull = Inr (JStr s) \<and> parse s = Some k"
proof -
  from assms obtain period start where p: "py_get e ''period'' (JObj []) = Inr period"
    and s: "py_get period ''start'' JNull = Inr start"
    and r: "(if truthy start then
         (case start of
            JStr s \<Rightarrow> (case parse s of None \<Rightarrow> Inl ParserError | Some d \<Rightarrow> Inr d)
          | _ \<Rightarrow> Inl TypeError)
       else Inl AttributeError) = Inr k"
    by (auto simp: get_encounter_date_def bnd_eq_Inr)
  from r obtain s' where "start = JStr s'" and "parse s' = Some k"
    by (cases start) (auto split: if_splits option.splits)
  with p s show ?thesis by blast
qed

lemma encounter_info_Inr:
  assumes "encounter_info e = Inr i"
  shows "\<exists>period. py_get e ''period'' (JObj []) = Inr period \<and>
           py_get period ''start'' (JStr '''') = Inr (JStr (date i))"
proof -
  from assms obtain period start_date d where p: "py_get e ''period'' (JObj []) = Inr period"
    and s: "py_get period ''start'' (JStr '''') = Inr start_date"
    and d: "as_str start_date = Inr d" and i: "date i = d"
    by (auto simp: encounter_info_def bnd_eq_Inr)
  from d have "start_date = JStr d" by (simp add: as_str_Inr)
  with p s i show ?thesis by blast
qed

lemma encounter_date_info:
  assumes "get_encounter_date parse e = Inr k" and "encounter_info e = Inr i"
  shows "parse (date i) = Some k"
proof -
  from get_encounter_date_Inr [OF assms(1)] obtain period s where
    p: "py_get e ''period'' (JObj []) = Inr period"
    and s: "py_get period ''start'' JNull = Inr (JStr s)" and k: "parse s = Some k"
    by blast
  from encounter_info_Inr [OF assms(2)] p have
    "py_get period ''start'' (JStr '''') = Inr (JStr (date i))" by auto
  with py_get_start [OF s] have "date i = s" by simp
  with k show ?thesis by simp
qed

lemma encounter_infos_dates:
  "map_err encounter_info (map snd xs) = Inr is \<Longrightarrow>
   (\<forall>kr\<in>set xs. get_encounter_date parse (snd kr) = Inr (fst kr)) \<Longrightarrow>
   map (\<lambda>i. parse (date i)) is = map (\<lambda>kr. Some (fst kr)) xs"
proof (induction xs arbitrary: "is")
  case Nil
  then show ?case by simp
next
  case (Cons x xs)
  from Cons.prems(1) obtain j js where j: "encounter_info (snd x) = Inr j"
    and js: "map_err encounter_info (map snd xs) = Inr js" and eq: "is = j # js"
    by (auto simp: bnd_eq_Inr)
  from Cons.prems(2) have x: "get_encounter_date parse (snd x) = Inr (fst x)"
    and rest: "\<forall>kr\<in>set xs. get_encounter_date parse (snd kr) = Inr (fst kr)"
    by simp_all
  from Cons.IH [OF js rest] encounter_date_info [OF x j] eq show ?case by simp
qed

text \<open>
  C9. The returned PatientInfo has min(3, number of Encounter resources) recent encounters.
  They are a selection \<open>recent\<close> of the bundle's encounters, each with the start date it
  was sorted by: the dates of the selection are in ascending order and no encounter left
  out (\<open>older\<close>) has a later date than a selected one. The dates are all naive or all
  aware, so they are compared by their points in time.
\<close>

theorem C9_recent_encounters:
  assumes "parse_synthea_patient parse bundle filter_active = Inr p"
    and "bundle_entries bundle = Inr es"
  shows "length (recent_encounters p) = min 3 (length (resources_of ''Encounter'' es)) \<and>
    (\<exists>keys older recent.
       map_err (get_encounter_date parse) (resources_of ''Encounter'' es) = Inr keys \<and>
       mset (older @ recent) = mset (zip keys (resources_of ''Encounter'' es)) \<and>
       map_err encounter_info (map snd recent) = Inr (recent_encounters p) \<and>
       map (\<lambda>i. parse (date i)) (recent_encounters p) = map (\<lambda>kr. Some (fst kr)) recent \<and>
       comparable keys \<and>
       sorted (map (\<lambda>kr. instant (fst kr)) recent) \<and>
       (\<forall>a\<in>set older. \<forall>b\<in>set recent. instant (fst a) \<le> instant (fst b)))"
proof -
  from parse_synthea_patient_Inr [OF assms(1)] assms(2) obtain s srt where
    s: "scan_entries no_resources es = Inr s"
    and srt: "sorted_by_date parse (encounter_resources s) = Inr srt"
    and el: "map_err encounter_info (map snd (last3 srt)) = Inr (recent_encounters p)"
    by auto
  define encs where "encs = resources_of ''Encounter'' es"
  from scan_entries_Inr [OF s] have er: "encounter_resources s = encs"
    by (simp add: no_resources_def encs_def)
  from sorted_by_date_Inr [OF srt] er obtain keys where
    keys: "map_err (get_encounter_date parse) encs = Inr keys"
    and cmp: "comparable keys"
    and srt_eq: "srt = sort_key (\<lambda>kr. instant (fst kr)) (zip keys encs)"
    by auto
  define older where "older = take (length srt - 3) srt"
  define recent where "recent = last3 srt"
  have split: "srt = older @ recent"
    unfolding older_def recent_def by (rule last3_split)
  have len_keys: "length keys = length encs"
    using map_err_length [OF keys] .
  have len: "length (recent_encounters p) = min 3 (length encs)"
    using map_err_length [OF el] by (simp add: last3_length srt_eq len_keys)
  have ms: "mset (older @ recent) = mset (zip keys encs)"
    unfolding split [symmetric] srt_eq by simp
  have "sorted (map (\<lambda>kr. instant (fst kr)) srt)"
    unfolding srt_eq by simp
  then have so: "sorted (map (\<lambda>kr. instant (fst kr)) older @
      map (\<lambda>kr. instant (fst kr)) recent)"
    unfolding split by simp
  then have sr: "sorted (map (\<lambda>kr. instant (fst kr)) recent)"
    and ord: "\<forall>a\<in>set older. \<forall>b\<in>set recent. instant (fst a) \<le> instant (fst b)"
    by (auto simp: sorted_append)
  have "\<forall>kr\<in>set recent. get_encounter_date parse (snd kr) = Inr (fst kr)"
  proof
    fix kr assume "kr \<in> set recent"
    then have "kr \<in> set srt" unfolding split by simp
    then have "(fst kr, snd kr) \<in> set (zip keys encs)" unfolding srt_eq by simp
    from map_err_zip [OF keys this] show "get_encounter_date parse (snd kr) = Inr (fst kr)" .
  qed
  from encounter_infos_dates [OF el [folded recent_def] this]
  have dates: "map (\<lambda>i. parse (date i)) (recent_encounters p) = map (\<lambda>kr. Some (fst kr)) recent" .
  show ?thesis
    using len keys ms el [folded recent_def] dates cmp sr ord unfolding encs_def by blast
qed

theorem C9_witness:
  "length (recent_encounters ex_info) = min 3 (length (resources_of ''Encounter'' ex_entries)) \<and>
   length (resources_of ''Encounter'' ex_entries) = 4 \<and>
   map date (recent_encounters ex_info) = [''2021-03-05'', ''2022-10-02'', ''2023-01-20'']"
proof -
  have n: "length (resources_of ''Encounter'' ex_entries) = 4" by code_simp
  have d: "map date (recent_encounters ex_info) = [''2021-03-05'', ''2022-10-02'', ''2023-01-20'']" by code_simp
  from C9_recent_encounters [OF ex_bundle_parsed ex_bundle_entries] n d show ?thesis by blast
qed

lemma no_ValueError_simps [simp]:
  "no_ValueError (Inr x)" "no_ValueError (Inl AttributeError)" "no_ValueError (Inl IndexError)"
  "no_ValueError (Inl KeyError)" "no_ValueError (Inl TypeError)" "no_ValueError (Inl ParserError)"
  "no_ValueError (Inl ValidationError)" "\<not> no_ValueError (Inl (ValueError mesg))"
  by (simp_all add: no_ValueError_def)

lemma no_ValueError_bnd:
  "no_ValueError m \<Longrightarrow> (\<And>x. no_ValueError (f x)) \<Longrightarrow> no_ValueError (bnd m f)"
  by (cases m) (auto simp: no_ValueError_def)

lemma no_ValueError_case_prod4:
  "(\<And>a b c d. no_ValueError (f a b c d)) \<Longrightarrow>
     no_ValueError (case x of (a, b, c, d) \<Rightarrow> f a b c d)"
  by (cases x) auto

lemma no_ValueError_py_get [simp]: "no_ValueError (py_get x k d)"
  by (cases x) auto

lemma no_ValueError_py_item0 [simp]: "no_ValueError (py_item0 x)"
  by (cases x rule: py_item0.cases) auto

lemma no_ValueError_py_iter [simp]: "no_ValueError (py_iter x)"
  by (cases x) auto

lemma no_ValueError_as_str [simp]: "no_ValueError (as_str x)"
  by (cases x) auto

lemma no_ValueError_as_opt_str [simp]: "no_ValueError (as_opt_str x)"
  by (cases x) auto

lemma no_ValueError_py_in_strs [simp]: "no_ValueError (py_in_strs x ss)"
  by (cases x) auto

lemma no_ValueError_map_err:
  "(\<And>x. no_ValueError (f x)) \<Longrightarrow> no_ValueError (map_err f xs)"
  by (induction xs) (auto intro!: no_ValueError_bnd)

lemma no_ValueError_demographics [simp]: "no_ValueError (demographics r)"
  unfolding demographics_def by (intro no_ValueError_bnd) simp_all

lemma no_ValueError_condition_fields [simp]: "no_ValueError (condition_fields r)"
  unfolding condition_fields_def by (intro no_ValueError_bnd) simp_all

lemma no_ValueError_mk_ConditionInfo [simp]: "no_ValueError (mk_ConditionInfo a b c)"
  unfolding mk_ConditionInfo_def by (intro no_ValueError_bnd) simp_all

lemma no_ValueError_condition_step [simp]: "no_ValueError (condition_step fa c)"
  unfolding condition_step_def
  by (intro no_ValueError_bnd) (auto intro!: no_ValueError_bnd)

lemma no_ValueError_condition_loop [simp]: "no_ValueError (condition_loop fa cs)"
  by (induction cs) (auto intro!: no_ValueError_bnd)

lemma no_ValueError_get_encounter_date [simp]: "no_ValueError (get_encounter_date parse e)"
  unfolding get_encounter_date_def
  by (intro no_ValueError_bnd) (auto split: json.splits option.splits)

lemma no_ValueError_sorted_by_date [simp]: "no_ValueError (sorted_by_date parse encs)"
  unfolding sorted_by_date_def
  by (intro no_ValueError_bnd no_ValueError_map_err) simp_all

lemma no_ValueError_encounter_info [simp]: "no_ValueError (encounter_info e)"
  unfolding encounter_info_def by (intro no_ValueError_bnd) simp_all

lemma no_ValueError_medication_step [simp]: "no_ValueError (medication_step m)"
  unfolding medication_step_def
  by (intro no_ValueError_bnd) (auto intro!: no_ValueError_bnd)

lemma no_ValueError_medication_loop [simp]: "no_ValueError (medication_loop ms)"
  by (induction ms) (auto intro!: no_ValueError_bnd)

lemma fhir_entry_scan: "fhir_entry e \<Longrightarrow> \<exists>s'. scan_entry s e = Inr s'"
  by (auto simp: fhir_entry_def scan_entry_def split: sum.splits json.splits)

lemma fhir_entries_scan: "list_all fhir_entry es \<Longrightarrow> \<exists>s'. scan_entries s es = Inr s'"
proof (induction es arbitrary: s)
  case Nil
  then show ?case by simp
next
  case (Cons e es)
  from Cons.prems have e: "fhir_entry e" and es: "list_all fhir_entry es" by simp_all
  from fhir_entry_scan [OF e] obtain s1 where "scan_entry s e = Inr s1" by blast
  moreover from Cons.IH [OF es] obtain s2 where "scan_entries s1 es = Inr s2" by blast
  ultimately show ?case by simp
qed

lemma has_type_truthy: "has_type t r \<Longrightarrow> truthy r"
  by (cases r) (auto simp: has_type_def)

lemma last_resources_of: "resources_of t es \<noteq> [] \<Longrightarrow> has_type t (last (resources_of t es))"
proof -
  assume ne: "resources_of t es \<noteq> []"
  then have "last (resources_of t es) \<in> set (resources_of t es)" by (rule last_in_set)
  then show ?thesis by (simp add: resources_of_def)
qed

text \<open>
  C8, as amended. On a well-formed bundle the function raises its ValueError exactly when
  no entry is a Patient resource, and a PatientInfo it returns has the demographics of the
  last Patient resource of the bundle.
\<close>

theorem C8_patient_resource:
  assumes "bundle_entries bundle = Inr es" and "list_all fhir_entry es"
  shows "(parse_synthea_patient parse bundle filter_active =
            Inl (ValueError ''No Patient resource found in the provided file.'')
          \<longleftrightarrow> resources_of ''Patient'' es = []) \<and>
         (\<forall>p. parse_synthea_patient parse bundle filter_active = Inr p \<longrightarrow>
            demographics (last (resources_of ''Patient'' es)) =
              Inr (JStr (given_name p), JStr (family_name p), JStr (birth_date p),
                   JStr (gender p)))"
proof -
  from fhir_entries_scan [OF assms(2)] obtain s where s: "scan_entries no_resources es = Inr s"
    by blast
  from scan_entries_Inr [OF s] have
    pr: "patient_resource s = (if resources_of ''Patient'' es = [] then None
           else Some (last (resources_of ''Patient'' es)))"
    by (simp add: no_resources_def)
  have none: "parse_synthea_patient parse bundle filter_active =
            Inl (ValueError ''No Patient resource found in the provided file.'')"
    if "resources_of ''Patient'' es = []"
    using that pr by (simp add: parse_synthea_patient_def assms(1) s)
  have some: "parse_synthea_patient parse bundle filter_active \<noteq> Inl (ValueError mesg)"
    if ne: "resources_of ''Patient'' es \<noteq> []" for mesg
  proof -
    define patient where "patient = last (resources_of ''Patient'' es)"
    from ne pr have p: "patient_resource s = Some patient" by (simp add: patient_def)
    from last_resources_of [OF ne] have "truthy patient"
      unfolding patient_def by (rule has_type_truthy)
    then have "no_ValueError (parse_synthea_patient parse bundle filter_active)"
      unfolding parse_synthea_patient_def assms(1) s bnd_simps p option.case
      by simp (intro no_ValueError_bnd no_ValueError_case_prod4 no_ValueError_map_err, simp_all)
    then show ?thesis by auto
  qed
  have built: "demographics (last (resources_of ''Patient'' es)) =
              Inr (JStr (given_name p), JStr (family_name p), JStr (birth_date p),
                   JStr (gender p))"
    if "parse_synthea_patient parse bundle filter_active = Inr p" for p
  proof -
    from parse_synthea_patient_Inr [OF that] assms(1) s obtain patient where
      "patient_resource s = Some patient"
      and d: "demographics patient =
       Inr (JStr (given_name p), JStr (family_name p), JStr (birth_date p), JStr (gender p))"
      by auto
    with pr have "patient = last (resources_of ''Patient'' es)"
      by (simp split: if_splits)
    with d show ?thesis by simp
  qed
  show ?thesis using none some built by blast
qed

lemma ex_entries_fhir: "list_all fhir_entry ex_entries"
  by code_simp

theorem C8_witness:
  "resources_of ''Patient'' ex_entries \<noteq> [] \<and>
   parse_synthea_patient ex_parse ex_bundle False \<noteq>
     Inl (ValueError ''No Patient resource found in the provided file.'') \<and>
   demographics (last (resources_of ''Patient'' ex_entries)) =
     Inr (JStr (given_name ex_info), JStr (family_name ex_info), JStr (birth_date ex_info),
          JStr (gender ex_info))"
proof -
  have ne: "resources_of ''Patient'' ex_entries \<noteq> []" by code_simp
  from C8_patient_resource [OF ex_bundle_entries ex_entries_fhir, of ex_parse False] ne
    ex_bundle_parsed
  show ?thesis by blast
qed

text \<open>
  C8 as stated fails: the example bundle holds the Patient resources of Ann and, after it,
  of Bob; the first one is Ann's and the PatientInfo returned is Bob's.
\<close>

theorem C8_counterexample:
  "demographics (hd (resources_of ''Patient'' ex_entries)) =
     Inr (JStr ''Ann'', JStr ''Lee'', JStr ''1990-01-01'', JStr ''female'') \<and>
   parse_synthea_patient ex_parse ex_bundle False = Inr ex_info \<and>
   given_name ex_info = ''Bob''"
proof -
  have "demographics (hd (resources_of ''Patient'' ex_entries)) =
     Inr (JStr ''Ann'', JStr ''Lee'', JStr ''1990-01-01'', JStr ''female'')"
    by code_simp
  moreover have "given_name ex_info = ''Bob''"
    by (simp add: ex_info_def)
  ultimately show ?thesis using ex_bundle_parsed by simp
qed

section \<open>Properties of the dict operations\<close>

lemma dict_set_keys:
  "map fst (dict_set k v d) = (if k \<in> set (map fst d) then map fst d else map fst d @ [k])"
  by (induction d) auto

lemma dict_set_distinct: "distinct (map fst d) \<Longrightarrow> distinct (map fst (dict_set k v d))"
  by (simp add: dict_set_keys)

lemma dict_set_values: "snd ` set (dict_set k v d) \<subseteq> insert v (snd ` set d)"
  by (induction d) auto

lemma dict_set_keyed:
  "\<forall>kv\<in>set d. f (snd kv) = fst kv \<Longrightarrow> f v = k \<Longrightarrow> \<forall>kv\<in>set (dict_set k v d). f (snd kv) = fst kv"
  by (induction d) auto

lemma dict_of_nodes_props:
  "distinct (map fst (dict_of_nodes ds)) \<and>
   (\<forall>kv\<in>set (dict_of_nodes ds). node_id (snd kv) = fst kv) \<and>
   set (map fst (dict_of_nodes ds)) = node_id ` set ds \<and>
   snd ` set (dict_of_nodes ds) \<subseteq> set ds"
proof -
  have "distinct (map fst acc) \<Longrightarrow> (\<forall>kv\<in>set acc. node_id (snd kv) = fst kv) \<Longrightarrow>
      distinct (map fst (fold (\<lambda>d acc. dict_set (node_id d) d acc) ds acc)) \<and>
      (\<forall>kv\<in>set (fold (\<lambda>d acc. dict_set (node_id d) d acc) ds acc). node_id (snd kv) = fst kv) \<and>
      set (map fst (fold (\<lambda>d acc. dict_set (node_id d) d acc) ds acc)) =
        set (map fst acc) \<union> node_id ` set ds \<and>
      snd ` set (fold (\<lambda>d acc. dict_set (node_id d) d acc) ds acc) \<subseteq> snd ` set acc \<union> set ds"
    for acc
  proof (induction ds arbitrary: acc)
    case Nil
    then show ?case by simp
  next
    case (Cons d ds)
    have 1: "distinct (map fst (dict_set (node_id d) d acc))"
      using Cons.prems(1) by (rule dict_set_distinct)
    have 2: "\<forall>kv\<in>set (dict_set (node_id d) d acc). node_id (snd kv) = fst kv"
      using Cons.prems(2) by (rule dict_set_keyed) simp
    have 3: "set (map fst (dict_set (node_id d) d acc)) = insert (node_id d) (set (map fst acc))"
      by (auto simp: dict_set_keys)
    have 4: "snd ` set (dict_set (node_id d) d acc) \<subseteq> insert d (snd ` set acc)"
      by (rule dict_set_values)
    note IH = Cons.IH [OF 1 2]
    have a: "distinct (map fst (fold (\<lambda>d acc. dict_set (node_id d) d acc) (d # ds) acc))"
      using IH by simp
    have b: "\<forall>kv\<in>set (fold (\<lambda>d acc. dict_set (node_id d) d acc) (d # ds) acc).
        node_id (snd kv) = fst kv"
      using IH by simp
    have c: "set (map fst (fold (\<lambda>d acc. dict_set (node_id d) d acc) (d # ds) acc)) =
        set (map fst acc) \<union> node_id ` set (d # ds)"
      using IH 3 by auto
    have "snd ` set (fold (\<lambda>d acc. dict_set (node_id d) d acc) ds (dict_set (node_id d) d acc))
        \<subseteq> snd ` set (dict_set (node_id d) d acc) \<union> set ds"
      using IH by blast
    with 4 have "snd ` set (fold (\<lambda>d acc. dict_set (node_id d) d acc) ds
        (dict_set (node_id d) d acc)) \<subseteq> snd ` set acc \<union> insert d (set ds)"
      by blast
    then have e: "snd ` set (fold (\<lambda>d acc. dict_set (node_id d) d acc) (d # ds) acc)
        \<subseteq> snd ` set acc \<union> set (d # ds)"
      by simp
    show ?case using a b c e by blast
  qed
  from this [of "[]"] show ?thesis by (simp add: dict_of_nodes_def)
qed

lemma dict_update_props:
  assumes "distinct (map fst d)" and "\<forall>kv\<in>set d. f (snd kv) = fst kv"
    and "\<forall>kv\<in>set other. f (snd kv) = fst kv"
  shows "distinct (map fst (dict_update d other)) \<and>
   (\<forall>kv\<in>set (dict_update d other). f (snd kv) = fst kv) \<and>
   set (map fst (dict_update d other)) = set (map fst d) \<union> set (map fst other) \<and>
   snd ` set (dict_update d other) \<subseteq> snd ` set d \<union> snd ` set other"
  using assms unfolding dict_update_def
proof (induction other arbitrary: d)
  case Nil
  then show ?case by simp
next
  case (Cons kv other)
  have 1: "distinct (map fst (dict_set (fst kv) (snd kv) d))"
    using Cons.prems(1) by (rule dict_set_distinct)
  have 2: "\<forall>x\<in>set (dict_set (fst kv) (snd kv) d). f (snd x) = fst x"
    using Cons.prems(2) by (rule dict_set_keyed) (use Cons.prems(3) in simp)
  have 3: "\<forall>x\<in>set other. f (snd x) = fst x" using Cons.prems(3) by simp
  have 4: "set (map fst (dict_set (fst kv) (snd kv) d)) = insert (fst kv) (set (map fst d))"
    by (auto simp: dict_set_keys)
  have 5: "snd ` set (dict_set (fst kv) (snd kv) d) \<subseteq> insert (snd kv) (snd ` set d)"
    by (rule dict_set_values)
  note IH = Cons.IH [OF 1 2 3]
  have a: "distinct (map fst (fold (\<lambda>kv acc. dict_set (fst kv) (snd kv) acc) (kv # other) d))"
    using IH by simp
  have b: "\<forall>x\<in>set (fold (\<lambda>kv acc. dict_set (fst kv) (snd kv) acc) (kv # other) d).
      f (snd x) = fst x"
    using IH by simp
  have c: "set (map fst (fold (\<lambda>kv acc. dict_set (fst kv) (snd kv) acc) (kv # other) d)) =
      set (map fst d) \<union> set (map fst (kv # other))"
    using IH 4 by auto
  have "snd ` set (fold (\<lambda>kv acc. dict_set (fst kv) (snd kv) acc) other
      (dict_set (fst kv) (snd kv) d)) \<subseteq> snd ` set (dict_set (fst kv) (snd kv) d) \<union> snd ` set other"
    using IH by blast
  with 5 have "snd ` set (fold (\<lambda>kv acc. dict_set (fst kv) (snd kv) acc) other
      (dict_set (fst kv) (snd kv) d)) \<subseteq> snd ` set d \<union> insert (snd kv) (snd ` set other)"
    by blast
  then have e: "snd ` set (fold (\<lambda>kv acc. dict_set (fst kv) (snd kv) acc) (kv # other) d)
      \<subseteq> snd ` set d \<union> snd ` set (kv # other)"
    by simp
  show ?case using a b c e by blast
qed

section \<open>Properties of handle_guideline_match\<close>

lemma same_run_refl [simp]: "same_run s s"
  by (simp add: same_run_def)

lemma same_run_trans: "same_run s t \<Longrightarrow> same_run t u \<Longrightarrow> same_run s u"
  by (simp add: same_run_def)

lemma same_run_stream [simp]: "same_run s (write_event_to_stream s m)"
  by (simp add: same_run_def write_event_to_stream_def)

lemma same_run_log_if [simp]: "same_run s (log_if b s m)"
  by (simp add: log_if_def)

lemma same_run_record_call [simp]: "same_run s (record_call s c)"
  by (simp add: same_run_def record_call_def)

lemma calls_stream [simp]: "calls (write_event_to_stream s m) = calls s"
  by (simp add: write_event_to_stream_def)

lemma calls_log_if [simp]: "calls (log_if b s m) = calls s"
  by (simp add: log_if_def)

lemma calls_record_call [simp]: "calls (record_call s c) = calls s @ [c]"
  by (simp add: record_call_def)

lemma same_run_ctx_get: "same_run s s' \<Longrightarrow> ctx_get s' k = ctx_get s k"
  by (simp add: same_run_def ctx_get_def)

lemma retrieve_loop_Inr:
  "retrieve_loop self qs s d = Inr (s', d') \<Longrightarrow>
   distinct (map fst d) \<Longrightarrow> \<forall>kv\<in>set d. node_id (snd kv) = fst kv \<Longrightarrow>
     distinct (map fst d') \<and> (\<forall>kv\<in>set d'. node_id (snd kv) = fst kv) \<and>
     set (map fst d') = set (map fst d) \<union> node_id ` set (retrieved_nodes self qs) \<and>
     snd ` set d' \<subseteq> snd ` set d \<union> set (retrieved_nodes self qs) \<and>
     calls s' = calls s @ map Retrieve qs \<and> same_run s s'"
proof (induction qs arbitrary: s d)
  case Nil
  then show ?case by (simp add: retrieved_nodes_def)
next
  case (Cons q qs)
  define s2 where "s2 = record_call (log_if (verbose self) s (''>> - '' @ q)) (Retrieve q)"
  have "retrieve_loop self (q # qs) s d =
      bnd (retrieve self q) (\<lambda>cur. retrieve_loop self qs s2 (dict_update d (dict_of_nodes cur)))"
    by (simp add: Let_def s2_def)
  with Cons.prems(1) have "bnd (retrieve self q)
      (\<lambda>cur. retrieve_loop self qs s2 (dict_update d (dict_of_nodes cur))) = Inr (s', d')"
    by simp
  then obtain cur where cur: "retrieve self q = Inr cur"
    and rest: "retrieve_loop self qs s2 (dict_update d (dict_of_nodes cur)) = Inr (s', d')"
    unfolding bnd_eq_Inr by blast
  define X where "X = dict_of_nodes cur"
  define D where "D = dict_update d X"
  note dn = dict_of_nodes_props [of cur, folded X_def]
  note dn1 = dn [THEN conjunct1]
  note dn2 = dn [THEN conjunct2, THEN conjunct1]
  note dn3 = dn [THEN conjunct2, THEN conjunct2, THEN conjunct1]
  note dn4 = dn [THEN conjunct2, THEN conjunct2, THEN conjunct2]
  note du = dict_update_props [OF Cons.prems(2) Cons.prems(3) dn2, folded D_def]
  note du1 = du [THEN conjunct1]
  note du2 = du [THEN conjunct2, THEN conjunct1]
  note du3 = du [THEN conjunct2, THEN conjunct2, THEN conjunct1]
  note du4 = du [THEN conjunct2, THEN conjunct2, THEN conjunct2]
  note IH = Cons.IH [OF rest [folded X_def, folded D_def] du1 du2]
  note IH1 = IH [THEN conjunct1]
  note IH2 = IH [THEN conjunct2, THEN conjunct1]
  note IH3 = IH [THEN conjunct2, THEN conjunct2, THEN conjunct1]
  note IH4 = IH [THEN conjunct2, THEN conjunct2, THEN conjunct2, THEN conjunct1]
  note IH5 = IH [THEN conjunct2, THEN conjunct2, THEN conjunct2, THEN conjunct2, THEN conjunct1]
  note IH6 = IH [THEN conjunct2, THEN conjunct2, THEN conjunct2, THEN conjunct2, THEN conjunct2]
  have rn: "retrieved_nodes self (q # qs) = cur @ retrieved_nodes self qs"
    by (simp add: retrieved_nodes_def cur)
  have c: "set (map fst d') = set (map fst d) \<union> node_id ` set (retrieved_nodes self (q # qs))"
    unfolding IH3 du3 dn3 rn by (simp add: image_Un Un_assoc)
  have "snd ` set D \<subseteq> snd ` set d \<union> set cur"
    using du4 dn4 by blast
  with IH4 have e: "snd ` set d' \<subseteq> snd ` set d \<union> set (retrieved_nodes self (q # qs))"
    unfolding rn set_append by blast
  have f: "calls s' = calls s @ map Retrieve (q # qs)"
    unfolding IH5 by (simp add: s2_def)
  have "same_run s s2" unfolding s2_def
    by (simp add: same_run_def log_if_def record_call_def write_event_to_stream_def)
  then have g: "same_run s s'" using IH6 by (rule same_run_trans)
  show ?case using IH1 IH2 c e f g by blast
qed

lemma handle_guideline_match_Inr:
  assumes "handle_guideline_match self bundle s = Inr (s', out)"
  shows "\<exists>p queries s3 d r.
     ctx_get s ''patient_info'' = Inr (CPatientInfo p) \<and>
     predict_queries self (demographic_str p) bundle = Inr (Conforms queries) \<and>
     retrieve_loop self queries
       (write_event_to_stream (record_call s (PredictGuidelineQueries (demographic_str p) bundle))
          ''## Generating Queries'') [] = Inr (s3, d) \<and>
     predict_recommendation self (demographic_str p) bundle (guideline_text_of d) =
       Inr (Conforms r) \<and>
     out = [MatchGuidelineResultEvent bundle r] \<and>
     calls s' = calls s3 @
       [PredictGuidelineRecommendation (demographic_str p) bundle (guideline_text_of d)] \<and>
     same_run s3 s'"
proof -
  from assms obtain v where v: "ctx_get s ''patient_info'' = Inr v"
    by (auto simp: handle_guideline_match_def bnd_eq_Inr)
  with assms obtain p where p: "v = CPatientInfo p"
    by (cases v) (auto simp: handle_guideline_match_def)
  define s1 where "s1 = record_call s (PredictGuidelineQueries (demographic_str p) bundle)"
  from assms v p obtain gq where gq: "predict_queries self (demographic_str p) bundle = Inr gq"
    by (auto simp: handle_guideline_match_def bnd_eq_Inr Let_def)
  with assms v p obtain queries where q: "gq = Conforms queries"
    by (cases gq) (auto simp: handle_guideline_match_def Let_def)
  define s2 where "s2 = write_event_to_stream s1 ''## Generating Queries''"
  from assms v p gq q obtain s3 d where
    rl: "retrieve_loop self queries s2 [] = Inr (s3, d)"
    by (auto simp: handle_guideline_match_def bnd_eq_Inr Let_def s1_def s2_def)
  define s7 where "s7 = write_event_to_stream (record_call
      (log_if (verbose self) (log_if (verbose self) s3 ''## Found Guidelines'')
         (take 200 (guideline_text_of d) @ ''...''))
      (PredictGuidelineRecommendation (demographic_str p) bundle (guideline_text_of d)))
      ''## Guidelines Recommendations''"
  from assms have eq: "bnd (predict_recommendation self (demographic_str p) bundle
       (guideline_text_of d)) (\<lambda>guideline_rec.
         bnd (if verbose self
              then (case guideline_rec of Not_a_model \<Rightarrow> Inl AttributeError
                    | _ \<Rightarrow> Inr (write_event_to_stream s7 ''>> json''))
              else Inr s7) (\<lambda>s8.
           case guideline_rec of
             Conforms r \<Rightarrow> Inr (s8, [MatchGuidelineResultEvent bundle r])
           | _ \<Rightarrow> Inl (ValueError ''Invalid guideline recommendation''))) = Inr (s', out)"
    unfolding handle_guideline_match_def s7_def
    using rl by (simp add: Let_def s1_def s2_def v p gq [unfolded q])
  then obtain gr s8 where
    gr: "predict_recommendation self (demographic_str p) bundle (guideline_text_of d) = Inr gr"
    and s8: "(if verbose self
                then (case gr of Not_a_model \<Rightarrow> Inl AttributeError
                      | _ \<Rightarrow> Inr (write_event_to_stream s7 ''>> json''))
                else Inr s7) = Inr s8"
    and fin: "(case gr of Conforms r \<Rightarrow> Inr (s8, [MatchGuidelineResultEvent bundle r])
               | _ \<Rightarrow> Inl (ValueError ''Invalid guideline recommendation'')) = Inr (s', out)"
    unfolding bnd_eq_Inr by blast
  from fin obtain r where r: "gr = Conforms r" and s': "s' = s8"
    and out: "out = [MatchGuidelineResultEvent bundle r]"
    by (cases gr) auto
  from s8 r have s8_eq: "s8 = (if verbose self then write_event_to_stream s7 ''>> json'' else s7)"
    by (auto split: if_splits)
  have c: "calls s' = calls s3 @
       [PredictGuidelineRecommendation (demographic_str p) bundle (guideline_text_of d)]"
    unfolding s' s8_eq s7_def by simp
  have sr: "same_run s3 s'" unfolding s' s8_eq s7_def
    by (simp add: same_run_def log_if_def record_call_def write_event_to_stream_def)
  show ?thesis
    using v p gq q rl gr r out c sr unfolding s1_def s2_def by blast
qed

lemma keyed_map_fst:
  "\<forall>kv\<in>set d. f (snd kv) = fst kv \<Longrightarrow> map f (map snd d) = map fst d"
  by (induction d) auto

text \<open>
  C7. When handle_guideline_match returns, the guideline text of its recommendation call
  is the contents, joined by blank lines, of a list of retrieved nodes in which no node id
  occurs twice, and every id the retriever returned for one of the generated queries
  occurs in it. The calls it made are the query prediction, one retrieval per query and
  the recommendation prediction, in this order.
\<close>

theorem C7_guidelines_deduplicated:
  assumes "handle_guideline_match self bundle s = Inr (s', out)"
  shows "\<exists>patient_info queries docs.
     ctx_get s ''patient_info'' = Inr (CPatientInfo patient_info) \<and>
     predict_queries self (demographic_str patient_info) bundle = Inr (Conforms queries) \<and>
     calls s' = calls s @
       PredictGuidelineQueries (demographic_str patient_info) bundle # map Retrieve queries @
       [PredictGuidelineRecommendation (demographic_str patient_info) bundle
          (join [CHR 0x0A, CHR 0x0A] (map content docs))] \<and>
     distinct (map node_id docs) \<and>
     set docs \<subseteq> set (retrieved_nodes self queries) \<and>
     node_id ` set docs = node_id ` set (retrieved_nodes self queries)"
proof -
  from handle_guideline_match_Inr [OF assms] obtain p queries s3 d r where
    p: "ctx_get s ''patient_info'' = Inr (CPatientInfo p)"
    and q: "predict_queries self (demographic_str p) bundle = Inr (Conforms queries)"
    and rl: "retrieve_loop self queries
       (write_event_to_stream (record_call s (PredictGuidelineQueries (demographic_str p) bundle))
          ''## Generating Queries'') [] = Inr (s3, d)"
    and c: "calls s' = calls s3 @
       [PredictGuidelineRecommendation (demographic_str p) bundle (guideline_text_of d)]"
    by blast
  have "distinct (map fst ([] :: (string \<times> node) list))" by simp
  moreover have "\<forall>kv\<in>set ([] :: (string \<times> node) list). node_id (snd kv) = fst kv" by simp
  ultimately have props: "distinct (map fst d) \<and> (\<forall>kv\<in>set d. node_id (snd kv) = fst kv) \<and>
     set (map fst d) = set (map fst ([] :: (string \<times> node) list)) \<union>
        node_id ` set (retrieved_nodes self queries) \<and>
     snd ` set d \<subseteq> snd ` set ([] :: (string \<times> node) list) \<union> set (retrieved_nodes self queries) \<and>
     calls s3 = calls (write_event_to_stream (record_call s
        (PredictGuidelineQueries (demographic_str p) bundle)) ''## Generating Queries'') @
        map Retrieve queries \<and>
     same_run (write_event_to_stream (record_call s
        (PredictGuidelineQueries (demographic_str p) bundle)) ''## Generating Queries'') s3"
    by (rule retrieve_loop_Inr [OF rl])
  define docs where "docs = map snd d"
  from props have keyed: "\<forall>kv\<in>set d. node_id (snd kv) = fst kv" by blast
  have ids: "map node_id docs = map fst d"
    unfolding docs_def using keyed by (rule keyed_map_fst)
  from props have "distinct (map fst d)" by blast
  then have 1: "distinct (map node_id docs)" by (simp add: ids)
  from props have 2: "set docs \<subseteq> set (retrieved_nodes self queries)"
    by (simp add: docs_def)
  from props have "set (map fst d) = node_id ` set (retrieved_nodes self queries)" by simp
  then have 3: "node_id ` set docs = node_id ` set (retrieved_nodes self queries)"
    unfolding ids [symmetric] by simp
  from props have "calls s3 = calls s @
      [PredictGuidelineQueries (demographic_str p) bundle] @ map Retrieve queries"
    by simp
  with c have 4: "calls s' = calls s @
       PredictGuidelineQueries (demographic_str p) bundle # map Retrieve queries @
       [PredictGuidelineRecommendation (demographic_str p) bundle
          (join [CHR 0x0A, CHR 0x0A] (map content docs))]"
    by (simp add: guideline_text_of_def docs_def comp_def)
  show ?thesis using p q 1 2 3 4 by blast
qed

lemma ex_handle_returns:
  "\<not> isl (handle_guideline_match ex_workflow (ex_bundle_of ''Asthma'') ex_state)"
  by code_simp

theorem C7_witness:
  "\<exists>s' out (docs :: node list).
     handle_guideline_match ex_workflow (ex_bundle_of ''Asthma'') ex_state = Inr (s', out) \<and>
     last (calls s') = PredictGuidelineRecommendation (demographic_str ex_active)
        (ex_bundle_of ''Asthma'') (join [CHR 0x0A, CHR 0x0A] (map content docs)) \<and>
     distinct (map node_id docs) \<and>
     node_id ` set docs = {''n1'', ''Asthma'', ''therapy''}"
proof -
  from ex_handle_returns obtain s' out where
    r: "handle_guideline_match ex_workflow (ex_bundle_of ''Asthma'') ex_state = Inr (s', out)"
    by (cases "handle_guideline_match ex_workflow (ex_bundle_of ''Asthma'') ex_state") auto
  from C7_guidelines_deduplicated [OF r] obtain patient_info queries docs where
    everything: "ctx_get ex_state ''patient_info'' = Inr (CPatientInfo patient_info) \<and>
     predict_queries ex_workflow (demographic_str patient_info) (ex_bundle_of ''Asthma'') =
       Inr (Conforms queries) \<and>
     calls s' = calls ex_state @
       PredictGuidelineQueries (demographic_str patient_info) (ex_bundle_of ''Asthma'') #
       map Retrieve queries @
       [PredictGuidelineRecommendation (demographic_str patient_info) (ex_bundle_of ''Asthma'')
          (join [CHR 0x0A, CHR 0x0A] (map content docs))] \<and>
     distinct (map node_id docs) \<and>
     set docs \<subseteq> set (retrieved_nodes ex_workflow queries) \<and>
     node_id ` set docs = node_id ` set (retrieved_nodes ex_workflow queries)"
    by (elim exE) (rule that)
  note p = everything [THEN conjunct1]
  note q = everything [THEN conjunct2, THEN conjunct1]
  note c = everything [THEN conjunct2, THEN conjunct2, THEN conjunct1]
  note d = everything [THEN conjunct2, THEN conjunct2, THEN conjunct2, THEN conjunct1]
  note i = everything [THEN conjunct2, THEN conjunct2, THEN conjunct2, THEN conjunct2,
    THEN conjunct2]
  have "ctx_get ex_state ''patient_info'' = Inr (CPatientInfo ex_active)" by code_simp
  with p have pe: "patient_info = ex_active" by simp
  have "predict_queries ex_workflow (demographic_str ex_active) (ex_bundle_of ''Asthma'') =
       Inr (Conforms [''Asthma'', ''therapy''])"
    by (simp add: ex_workflow_def ex_bundle_of_def)
  with q pe have qe: "queries = [''Asthma'', ''therapy'']" by simp
  have ids: "map node_id (retrieved_nodes ex_workflow [''Asthma'', ''therapy'']) =
      [''n1'', ''Asthma'', ''n1'', ''therapy'']"
    by (simp add: retrieved_nodes_def ex_workflow_def)
  have "node_id ` set docs = set (map node_id (retrieved_nodes ex_workflow queries))"
    unfolding i by simp
  also have "\<dots> = set [''n1'', ''Asthma'', ''n1'', ''therapy'']"
    unfolding qe ids ..
  also have "\<dots> = {''n1'', ''Asthma'', ''therapy''}"
    by auto
  finally have i': "node_id ` set docs = {''n1'', ''Asthma'', ''therapy''}" .
  have l: "last (calls s') = PredictGuidelineRecommendation (demographic_str ex_active)
        (ex_bundle_of ''Asthma'') (join [CHR 0x0A, CHR 0x0A] (map content docs))"
    unfolding c pe by simp
  have "handle_guideline_match ex_workflow (ex_bundle_of ''Asthma'') ex_state = Inr (s', out) \<and>
     last (calls s') = PredictGuidelineRecommendation (demographic_str ex_active)
        (ex_bundle_of ''Asthma'') (join [CHR 0x0A, CHR 0x0A] (map content docs)) \<and>
     distinct (map node_id docs) \<and>
     node_id ` set docs = {''n1'', ''Asthma'', ''therapy''}"
    by (intro conjI r l d i')
  then show ?thesis by (intro exI)
qed

section \<open>Properties of the step registry\<close>

lemma register_Inr:
  "register reg d = Inr reg' \<longleftrightarrow>
     reg' = reg @ [d] \<and> accepts d \<in> set routed_event_types \<and> consumers reg (accepts d) = []"
  by (auto simp: register_def)

lemma consumers_append: "consumers (xs @ ys) t = consumers xs t @ consumers ys t"
  by (simp add: consumers_def)

lemma consumers_single: "consumers [d] t = (if accepts d = t then [d] else [])"
  by (simp add: consumers_def)

lemma consumers_empty_iff: "consumers xs t = [] \<longleftrightarrow> t \<notin> accepts ` set xs"
  by (auto simp: consumers_def filter_empty_conv)

lemma register_all_Inr:
  "register_all reg ds = Inr reg' \<longleftrightarrow>
     reg' = reg @ ds \<and> (\<forall>d\<in>set ds. accepts d \<in> set routed_event_types) \<and>
     distinct (map accepts ds) \<and> (\<forall>d\<in>set ds. accepts d \<notin> accepts ` set reg)"
proof (induction ds arbitrary: reg)
  case Nil
  then show ?case by auto
next
  case (Cons d ds)
  show ?case
    unfolding register_all.simps bnd_eq_Inr register_Inr
    by (auto simp: Cons.IH consumers_empty_iff) (metis imageI)
qed

lemma distinct_consumers:
  "distinct (map accepts ds) \<longleftrightarrow> (\<forall>t. length (consumers ds t) \<le> 1)"
proof (induction ds)
  case Nil
  then show ?case by (simp add: consumers_def)
next
  case (Cons d ds)
  have c: "consumers (d # ds) t = (if accepts d = t then d # consumers ds t else consumers ds t)"
    for t
    by (simp add: consumers_def)
  show ?case
  proof
    assume dist: "distinct (map accepts (d # ds))"
    then have "\<forall>t. length (consumers ds t) \<le> 1" using Cons.IH by simp
    moreover from dist have "consumers ds (accepts d) = []"
      by (simp add: consumers_empty_iff)
    ultimately show "\<forall>t. length (consumers (d # ds) t) \<le> 1"
      unfolding c by auto
  next
    assume le: "\<forall>t. length (consumers (d # ds) t) \<le> 1"
    have "length (consumers ds t) \<le> 1" for t
      using le [rule_format, of t] unfolding c by (auto split: if_splits)
    then have "distinct (map accepts ds)" using Cons.IH by simp
    moreover have "consumers ds (accepts d) = []"
      using le [rule_format, of "accepts d"] unfolding c by simp
    then have "accepts d \<notin> accepts ` set ds" by (simp add: consumers_empty_iff)
    ultimately show "distinct (map accepts (d # ds))" by simp
  qed
qed

lemma construct_registry_Inr:
  "construct_registry steps = Inr reg \<longleftrightarrow>
     reg = steps \<and> (\<forall>d\<in>set steps. accepts d \<in> set routed_event_types) \<and>
     (\<forall>t\<in>set routed_event_types. length (consumers steps t) = 1)"
proof -
  have a: "construct_registry steps = Inr reg \<longleftrightarrow>
     reg = steps \<and> (\<forall>d\<in>set steps. accepts d \<in> set routed_event_types) \<and>
     distinct (map accepts steps) \<and> (\<forall>t\<in>set routed_event_types. consumers steps t \<noteq> [])"
    unfolding construct_registry_def bnd_eq_Inr register_all_Inr
    by (auto simp: list_all_iff)
  have b: "distinct (map accepts steps) \<and> (\<forall>t\<in>set routed_event_types. consumers steps t \<noteq> [])
      \<longleftrightarrow> (\<forall>t\<in>set routed_event_types. length (consumers steps t) = 1)"
    if r: "\<forall>d\<in>set steps. accepts d \<in> set routed_event_types"
  proof
    assume l: "distinct (map accepts steps) \<and>
        (\<forall>t\<in>set routed_event_types. consumers steps t \<noteq> [])"
    show "\<forall>t\<in>set routed_event_types. length (consumers steps t) = 1"
    proof
      fix t assume "t \<in> set routed_event_types"
      with l have "consumers steps t \<noteq> []" by blast
      moreover from l have "length (consumers steps t) \<le> 1"
        using distinct_consumers by blast
      ultimately show "length (consumers steps t) = 1"
        by (cases "consumers steps t") auto
    qed
  next
    assume one: "\<forall>t\<in>set routed_event_types. length (consumers steps t) = 1"
    have "length (consumers steps t) \<le> 1" for t
    proof (cases "t \<in> set routed_event_types")
      case True
      with one show ?thesis by simp
    next
      case False
      with r have "t \<notin> accepts ` set steps" by blast
      then show ?thesis by (simp add: consumers_empty_iff [symmetric])
    qed
    then have "distinct (map accepts steps)" using distinct_consumers by blast
    moreover have "\<forall>t\<in>set routed_event_types. consumers steps t \<noteq> []"
      using one by fastforce
    ultimately show "distinct (map accepts steps) \<and>
        (\<forall>t\<in>set routed_event_types. consumers steps t \<noteq> [])" by blast
  qed
  show ?thesis using a b by blast
qed

lemma register_all_error:
  "register_all reg ds = Inl e \<Longrightarrow> \<exists>m. e = ConfigurationError m"
proof (induction ds arbitrary: reg)
  case Nil
  then show ?case by simp
next
  case (Cons d ds)
  show ?case
  proof (cases "register reg d")
    case (Inl e')
    with Cons.prems have "e = e'" by simp
    with Inl show ?thesis by (auto simp: register_def split: if_splits)
  next
    case (Inr reg')
    with Cons.prems have "register_all reg' ds = Inl e" by simp
    then show ?thesis by (rule Cons.IH)
  qed
qed

lemma construct_registry_error:
  "construct_registry steps = Inl e \<Longrightarrow> \<exists>m. e = ConfigurationError m"
proof (cases "register_all [] steps")
  case (Inl e')
  assume "construct_registry steps = Inl e"
  with Inl have "e = e'" by (simp add: construct_registry_def)
  with Inl register_all_error show ?thesis by blast
next
  case (Inr reg)
  assume "construct_registry steps = Inl e"
  with Inr show ?thesis by (auto simp: construct_registry_def split: if_splits)
qed

lemma construct_workflow_steps: "construct_registry workflow_steps = Inr workflow_steps"
  by code_simp

lemma event_type_of_routed:
  "event_type_of ev \<noteq> TStopEvent \<Longrightarrow> event_type_of ev \<in> set routed_event_types"
  by (cases ev) (auto simp: routed_event_types_def)

lemma route_constructed:
  assumes "construct_registry steps = Inr reg" and "t \<in> set routed_event_types"
  shows "\<exists>d. route reg t = Inr d \<and> accepts d = t \<and> consumers reg t = [d]"
proof -
  from assms have "length (consumers reg t) = 1"
    unfolding construct_registry_Inr by blast
  then obtain d where d: "consumers reg t = [d]"
    by (cases "consumers reg t") auto
  then have "d \<in> set (consumers reg t)" by simp
  then have "accepts d = t" by (simp add: consumers_def)
  with d show ?thesis by (simp add: route_def)
qed

text \<open>
  C6. In the table of the workflow's steps each of StartEvent, PatientInfoEvent,
  ConditionBundleEvent, MatchGuidelineEvent, MatchGuidelineResultEvent and
  GenerateCaseSummaryEvent has exactly one consuming step, and construction accepts the
  table. A table in which one of these event types has no or more than one consuming step
  is rejected at construction with a configuration error; a table that construction
  accepted routes every event other than the StopEvent to exactly one step, so routing
  raises no configuration error during a run.
\<close>

theorem C6_one_consumer_per_event:
  "list_all (\<lambda>t. length (consumers workflow_steps t) = 1) routed_event_types \<and>
   construct_registry workflow_steps = Inr workflow_steps \<and>
   (\<forall>steps. (\<exists>t\<in>set routed_event_types. length (consumers steps t) \<noteq> 1) \<longrightarrow>
      (\<exists>m. construct_registry steps = Inl (ConfigurationError m))) \<and>
   (\<forall>steps reg ev. construct_registry steps = Inr reg \<longrightarrow> event_type_of ev \<noteq> TStopEvent \<longrightarrow>
      (\<exists>d. route reg (event_type_of ev) = Inr d \<and> accepts d = event_type_of ev \<and>
           consumers reg (event_type_of ev) = [d]))"
proof -
  have 1: "list_all (\<lambda>t. length (consumers workflow_steps t) = 1) routed_event_types"
    by code_simp
  have 2: "construct_registry workflow_steps = Inr workflow_steps"
    by (rule construct_workflow_steps)
  have 3: "\<exists>m. construct_registry steps = Inl (ConfigurationError m)"
    if "\<exists>t\<in>set routed_event_types. length (consumers steps t) \<noteq> 1" for steps
  proof (cases "construct_registry steps")
    case (Inl e)
    with construct_registry_error show ?thesis by blast
  next
    case (Inr reg)
    then have "\<forall>t\<in>set routed_event_types. length (consumers steps t) = 1"
      unfolding construct_registry_Inr by blast
    with that show ?thesis by blast
  qed
  have 4: "\<exists>d. route reg (event_type_of ev) = Inr d \<and> accepts d = event_type_of ev \<and>
           consumers reg (event_type_of ev) = [d]"
    if "construct_registry steps = Inr reg" "event_type_of ev \<noteq> TStopEvent" for steps reg ev
    using route_constructed [OF that(1) event_type_of_routed [OF that(2)]] .
  show ?thesis using 1 2 3 4 by blast
qed

theorem C6_witness:
  "length (consumers ex_two_entry_steps TStartEvent) = 2 \<and>
   construct_registry ex_two_entry_steps =
     Inl (ConfigurationError ''duplicate input event type'') \<and>
   route workflow_steps (event_type_of (MatchGuidelineEvent (ex_bundle_of ''Asthma''))) =
     Inr \<lparr>step_name = Handle_guideline_match, accepts = TMatchGuidelineEvent,
          produces = TMatchGuidelineResultEvent\<rparr>"
proof -
  have n: "length (consumers ex_two_entry_steps TStartEvent) = 2" by code_simp
  have t: "TStartEvent \<in> set routed_event_types" by code_simp
  from n t have "\<exists>t\<in>set routed_event_types. length (consumers ex_two_entry_steps t) \<noteq> 1"
    by force
  with C6_one_consumer_per_event obtain m where
    "construct_registry ex_two_entry_steps = Inl (ConfigurationError m)" by blast
  moreover have "construct_registry ex_two_entry_steps =
     Inl (ConfigurationError ''duplicate input event type'')" by code_simp
  moreover have "route workflow_steps (event_type_of (MatchGuidelineEvent (ex_bundle_of ''Asthma''))) =
     Inr \<lparr>step_name = Handle_guideline_match, accepts = TMatchGuidelineEvent,
          produces = TMatchGuidelineResultEvent\<rparr>" by code_simp
  ultimately show ?thesis using n by blast
qed

section \<open>Effects of the steps on the run state\<close>

lemma map_of_dict_set: "map_of (dict_set k v d) = (map_of d)(k \<mapsto> v)"
  by (induction d) (auto simp: fun_eq_iff)

lemma ctx_get_ctx_set: "ctx_get (ctx_set s k v) k' = (if k' = k then Inr v else ctx_get s k')"
  by (simp add: ctx_get_def ctx_set_def map_of_dict_set)

lemma ctx_get_frame [simp]:
  "ctx_get (write_event_to_stream s m) k = ctx_get s k"
  "ctx_get (log_if b s m) k = ctx_get s k"
  "ctx_get (record_call s c) k = ctx_get s k"
  "ctx_get (write_file s p f) k = ctx_get s k"
  by (simp_all add: ctx_get_def write_event_to_stream_def log_if_def record_call_def
      write_file_def)

lemma patient_info_from_cache_Inr:
  "patient_info_from_cache self s = Inr (s2, p) \<Longrightarrow>
     ctx s2 = ctx s \<and> collector s2 = collector s \<and> queue s2 = queue s \<and>
     stopped s2 = stopped s \<and> calls s2 = calls s"
  by (auto simp: patient_info_from_cache_def Let_def bnd_eq_Inr log_if_def
      write_event_to_stream_def)

lemma patient_info_from_file_Inr:
  "patient_info_from_file self path s = Inr (s2, p) \<Longrightarrow>
     ctx s2 = ctx s \<and> collector s2 = collector s \<and> queue s2 = queue s \<and>
     stopped s2 = stopped s \<and> calls s2 = calls s"
  by (auto simp: patient_info_from_file_def Let_def bnd_eq_Inr log_if_def
      write_event_to_stream_def write_file_def)

lemma parse_patient_info_Inr:
  assumes "parse_patient_info self path s = Inr (s', out)"
  shows "\<exists>p. ctx_get s' ''patient_info'' = Inr (CPatientInfo p) \<and> out = [PatientInfoEvent p] \<and>
     set (map fst (ctx s)) \<subseteq> set (map fst (ctx s')) \<and>
     collector s' = collector s \<and> queue s' = queue s \<and>
     stopped s' = stopped s \<and> calls s' = calls s"
proof -
  from assms obtain s2 p where
    c: "(if path_exists s (output_dir self @ ''/patient_info.json'')
          then patient_info_from_cache self s
          else patient_info_from_file self path s) = Inr (s2, p)"
    and s': "s' = ctx_set (log_if (verbose self) s2 ''>> json'') ''patient_info'' (CPatientInfo p)"
    and out: "out = [PatientInfoEvent p]"
    unfolding parse_patient_info_def by (auto simp: bnd_eq_Inr Let_def)
  have f: "ctx s2 = ctx s \<and> collector s2 = collector s \<and> queue s2 = queue s \<and>
     stopped s2 = stopped s \<and> calls s2 = calls s"
  proof (cases "path_exists s (output_dir self @ ''/patient_info.json'')")
    case True
    with c have "patient_info_from_cache self s = Inr (s2, p)" by simp
    then show ?thesis by (rule patient_info_from_cache_Inr)
  next
    case False
    with c have "patient_info_from_file self path s = Inr (s2, p)" by simp
    then show ?thesis by (rule patient_info_from_file_Inr)
  qed
  have 1: "ctx_get s' ''patient_info'' = Inr (CPatientInfo p)"
    unfolding s' by (simp add: ctx_get_ctx_set)
  have 2: "set (map fst (ctx s)) \<subseteq> set (map fst (ctx s'))"
    unfolding s' using f
    by (auto simp: ctx_set_def log_if_def write_event_to_stream_def dict_set_keys)
  have 3: "collector s' = collector s \<and> queue s' = queue s \<and>
     stopped s' = stopped s \<and> calls s' = calls s"
    unfolding s' using f by (simp add: ctx_set_def log_if_def write_event_to_stream_def)
  show ?thesis using 1 2 3 out by blast
qed

lemma bundles_from_cache_Inr:
  "bundles_from_cache self s = Inr (s2, bs) \<Longrightarrow> s2 = s"
  by (auto simp: bundles_from_cache_def bnd_eq_Inr)

lemma bundles_from_model_Inr:
  assumes "bundles_from_model self p s = Inr (s2, bs)"
  shows "ctx s2 = ctx s \<and> collector s2 = collector s \<and> queue s2 = queue s \<and>
     stopped s2 = stopped s \<and> calls s2 = calls s @ [PredictConditionBundles p] \<and>
     predict_bundles self p = Inr (Conforms bs)"
proof -
  from assms obtain s1 r where
    c: "create_condition_bundles self p s = Inr (s1, r)"
    and r: "(case r of
         Conforms condition_bundles \<Rightarrow>
           Inr (write_file s1 (output_dir self @ ''/condition_bundles.json'')
                  (Json (dump_bundles self condition_bundles)),
                condition_bundles)
       | Other_model \<Rightarrow> Inl ValidationError
       | Not_a_model \<Rightarrow> Inl AttributeError) = Inr (s2, bs)"
    unfolding bundles_from_model_def by (auto simp: bnd_eq_Inr)
  from c have s1: "s1 = record_call s (PredictConditionBundles p)"
    and pb: "predict_bundles self p = Inr r"
    by (auto simp: create_condition_bundles_def Let_def bnd_eq_Inr)
  from r have rc: "r = Conforms bs"
    and s2: "s2 = write_file s1 (output_dir self @ ''/condition_bundles.json'')
                  (Json (dump_bundles self bs))"
    by (cases r; simp)+
  show ?thesis
    unfolding s2 s1 using pb rc by (simp add: write_file_def record_call_def)
qed

lemma create_condition_bundles_step_Inr:
  assumes "create_condition_bundles_step self p s = Inr (s', out)"
  shows "\<exists>bs. out = [ConditionBundleEvent bs] \<and>
     ctx s' = ctx s \<and> collector s' = collector s \<and> queue s' = queue s \<and>
     stopped s' = stopped s"
proof -
  from assms obtain bs where
    c: "(if path_exists s (output_dir self @ ''/condition_bundles.json'')
          then bundles_from_cache self s
          else bundles_from_model self p s) = Inr (s', bs)"
    and out: "out = [ConditionBundleEvent bs]"
    unfolding create_condition_bundles_step_def by (auto simp: bnd_eq_Inr)
  have "ctx s' = ctx s \<and> collector s' = collector s \<and> queue s' = queue s \<and>
     stopped s' = stopped s"
  proof (cases "path_exists s (output_dir self @ ''/condition_bundles.json'')")
    case True
    with c have "bundles_from_cache self s = Inr (s', bs)" by simp
    from bundles_from_cache_Inr [OF this] show ?thesis by simp
  next
    case False
    with c have "bundles_from_model self p s = Inr (s', bs)" by simp
    from bundles_from_model_Inr [OF this] show ?thesis by simp
  qed
  with out show ?thesis by blast
qed

lemma dispatch_guideline_match_Inr:
  assumes "dispatch_guideline_match self bundles s = Inr (s', out)"
  shows "ctx_get s' ''num_conditions'' = Inr (CNum (length bundles)) \<and>
     out = map MatchGuidelineEvent bundles \<and>
     (\<forall>k. k \<noteq> ''num_conditions'' \<longrightarrow> ctx_get s' k = ctx_get s k) \<and>
     set (map fst (ctx s)) \<subseteq> set (map fst (ctx s')) \<and>
     collector s' = collector s \<and> queue s' = queue s \<and> stopped s' = stopped s \<and>
     calls s' = calls s"
proof -
  from assms have s': "s' = ctx_set s ''num_conditions'' (CNum (length bundles))"
    and out: "out = map MatchGuidelineEvent bundles"
    by (simp_all add: dispatch_guideline_match_def)
  have 1: "ctx_get s' ''num_conditions'' = Inr (CNum (length bundles))"
    unfolding s' by (simp add: ctx_get_ctx_set)
  have 2: "\<forall>k. k \<noteq> ''num_conditions'' \<longrightarrow> ctx_get s' k = ctx_get s k"
    unfolding s' by (simp add: ctx_get_ctx_set)
  have 3: "set (map fst (ctx s)) \<subseteq> set (map fst (ctx s'))"
    unfolding s' by (auto simp: ctx_set_def dict_set_keys)
  have 4: "collector s' = collector s \<and> queue s' = queue s \<and> stopped s' = stopped s \<and>
     calls s' = calls s"
    unfolding s' by (simp add: ctx_set_def)
  show ?thesis using 1 2 3 4 out by blast
qed

lemma handle_guideline_match_same_run:
  assumes "handle_guideline_match self bundle s = Inr (s', out)"
  shows "same_run s s' \<and> (\<exists>r. out = [MatchGuidelineResultEvent bundle r])"
proof -
  from handle_guideline_match_Inr [OF assms] obtain p queries s3 d r where
    rl: "retrieve_loop self queries
       (write_event_to_stream (record_call s (PredictGuidelineQueries (demographic_str p) bundle))
          ''## Generating Queries'') [] = Inr (s3, d)"
    and out: "out = [MatchGuidelineResultEvent bundle r]"
    and sr: "same_run s3 s'"
    by blast
  have "distinct (map fst ([] :: (string \<times> node) list))" by simp
  moreover have "\<forall>kv\<in>set ([] :: (string \<times> node) list). node_id (snd kv) = fst kv" by simp
  ultimately have a: "same_run (write_event_to_stream (record_call s
        (PredictGuidelineQueries (demographic_str p) bundle)) ''## Generating Queries'') s3"
    using retrieve_loop_Inr [OF rl] by blast
  have b: "same_run s (write_event_to_stream (record_call s
        (PredictGuidelineQueries (demographic_str p) bundle)) ''## Generating Queries'')"
    by (simp add: same_run_def record_call_def write_event_to_stream_def)
  have "same_run s s'"
    by (rule same_run_trans [OF same_run_trans [OF b a] sr])
  with out show ?thesis by blast
qed

lemma gather_guideline_match_Inr:
  assumes "gather_guideline_match self ev s = Inr (s', out)"
  shows "\<exists>n c events. ctx_get s ''num_conditions'' = Inr (CNum n) \<and>
     collect_events (collector s) ev n = Inr (c, events) \<and>
     collector s' = c \<and> ctx s' = ctx s \<and> queue s' = queue s \<and> stopped s' = stopped s \<and>
     calls s' = calls s \<and>
     out = (case events of None \<Rightarrow> [] | Some rs \<Rightarrow> [GenerateCaseSummaryEvent rs])"
proof -
  from assms obtain v where v: "ctx_get s ''num_conditions'' = Inr v"
    by (auto simp: gather_guideline_match_def bnd_eq_Inr)
  with assms obtain n where n: "v = CNum n"
    by (cases v) (auto simp: gather_guideline_match_def)
  from assms v n obtain c events where
    ce: "collect_events (collector s) ev n = Inr (c, events)"
    by (auto simp: gather_guideline_match_def bnd_eq_Inr)
  have "collector s' = c \<and> ctx s' = ctx s \<and> queue s' = queue s \<and> stopped s' = stopped s \<and>
     calls s' = calls s \<and>
     out = (case events of None \<Rightarrow> [] | Some rs \<Rightarrow> [GenerateCaseSummaryEvent rs])"
  proof (cases events)
    case None
    with assms show ?thesis
      by (auto simp: gather_guideline_match_def v n ce)
  next
    case (Some rs)
    with assms show ?thesis
      by (auto simp: gather_guideline_match_def v n ce Let_def write_file_def)
  qed
  with v n ce show ?thesis by blast
qed

lemma generate_output_Inr:
  assumes "generate_output self rs s = Inr (s', out)"
  shows "\<exists>p r. ctx_get s ''patient_info'' = Inr (CPatientInfo p) \<and>
     predict_summary self (demographic_str p) rs = Inr r \<and> out = [StopEvent r] \<and>
     same_run s s' \<and> calls s' = calls s @ [PredictCaseSummary (demographic_str p) rs]"
proof -
  define s1 where "s1 = log_if (verbose self) s ''## Case Summary''"
  from assms obtain v where v: "ctx_get s1 ''patient_info'' = Inr v"
    by (auto simp: generate_output_def bnd_eq_Inr Let_def s1_def)
  with assms obtain p where p: "v = CPatientInfo p"
    by (cases v) (auto simp: generate_output_def Let_def s1_def)
  from assms have "bnd (predict_summary self (demographic_str p) rs)
      (\<lambda>case_summary. Inr (record_call s1 (PredictCaseSummary (demographic_str p) rs),
         [StopEvent case_summary])) = Inr (s', out)"
    unfolding generate_output_def Let_def s1_def [symmetric] by (simp add: v p)
  then obtain r where r: "predict_summary self (demographic_str p) rs = Inr r"
    and s': "s' = record_call s1 (PredictCaseSummary (demographic_str p) rs)"
    and out: "out = [StopEvent r]"
    by (auto simp: bnd_eq_Inr)
  from v p have 1: "ctx_get s ''patient_info'' = Inr (CPatientInfo p)"
    by (simp add: s1_def)
  have 2: "same_run s s'"
    unfolding s' s1_def
    by (simp add: same_run_def log_if_def record_call_def write_event_to_stream_def)
  have 3: "calls s' = calls s @ [PredictCaseSummary (demographic_str p) rs]"
    unfolding s' s1_def by simp
  show ?thesis using 1 r out 2 3 by blast
qed

section \<open>Properties of Context.get\<close>

lemma same_run_ctx: "same_run s s' \<Longrightarrow> ctx s' = ctx s"
  by (simp add: same_run_def)

lemma run_step_keeps_keys:
  assumes "run_step self st e s = Inr (s', out)"
  shows "set (map fst (ctx s)) \<subseteq> set (map fst (ctx s'))"
proof (cases e)
  case (StartEvent path)
  with assms have "parse_patient_info self path s = Inr (s', out)"
    by (cases st) simp_all
  from parse_patient_info_Inr [OF this] show ?thesis by blast
next
  case (PatientInfoEvent p)
  with assms have "create_condition_bundles_step self p s = Inr (s', out)"
    by (cases st) simp_all
  from create_condition_bundles_step_Inr [OF this] show ?thesis by auto
next
  case (ConditionBundleEvent bs)
  with assms have "dispatch_guideline_match self bs s = Inr (s', out)"
    by (cases st) simp_all
  from dispatch_guideline_match_Inr [OF this] show ?thesis by blast
next
  case (MatchGuidelineEvent b)
  with assms have "handle_guideline_match self b s = Inr (s', out)"
    by (cases st) simp_all
  from handle_guideline_match_same_run [OF this] have "ctx s' = ctx s"
    by (auto dest: same_run_ctx)
  then show ?thesis by simp
next
  case (MatchGuidelineResultEvent b r)
  with assms have "gather_guideline_match self (b, r) s = Inr (s', out)"
    by (cases st) simp_all
  from gather_guideline_match_Inr [OF this] show ?thesis by auto
next
  case (GenerateCaseSummaryEvent rs)
  with assms have "generate_output self rs s = Inr (s', out)"
    by (cases st) simp_all
  from generate_output_Inr [OF this] have "ctx s' = ctx s"
    by (auto dest: same_run_ctx)
  then show ?thesis by simp
next
  case (StopEvent r)
  with assms show ?thesis by (cases st) simp_all
qed

text \<open>
  C5. Context.get on a key that is not in the store raises the usage error: it returns no
  default. So handle_guideline_match and generate_output raise it when "patient_info" was
  never set, and gather_guideline_match when "num_conditions" was not. Once
  parse_patient_info has returned, "patient_info" is in the store, once
  dispatch_guideline_match has returned, "num_conditions" is, and no step removes a key:
  after the producing step the error branch is not taken.
\<close>

theorem C5_context_get:
  "(map_of (ctx s) k = None \<longrightarrow> ctx_get s k = Inl (ContextKeyError k)) \<and>
   (map_of (ctx s) ''patient_info'' = None \<longrightarrow>
      handle_guideline_match self bundle s = Inl (ContextKeyError ''patient_info'') \<and>
      generate_output self rs s = Inl (ContextKeyError ''patient_info'')) \<and>
   (map_of (ctx s) ''num_conditions'' = None \<longrightarrow>
      gather_guideline_match self ev s = Inl (ContextKeyError ''num_conditions'')) \<and>
   (\<forall>s' out. parse_patient_info self path s = Inr (s', out) \<longrightarrow>
      (\<exists>p. ctx_get s' ''patient_info'' = Inr (CPatientInfo p))) \<and>
   (\<forall>s' out. dispatch_guideline_match self bundles s = Inr (s', out) \<longrightarrow>
      ctx_get s' ''num_conditions'' = Inr (CNum (length bundles))) \<and>
   (\<forall>st e s' out v. run_step self st e s = Inr (s', out) \<longrightarrow> ctx_get s k = Inr v \<longrightarrow>
      (\<exists>v'. ctx_get s' k = Inr v'))"
proof -
  have 1: "ctx_get s k = Inl (ContextKeyError k)" if "map_of (ctx s) k = None"
    using that by (simp add: ctx_get_def)
  have 2: "handle_guideline_match self bundle s = Inl (ContextKeyError ''patient_info'') \<and>
      generate_output self rs s = Inl (ContextKeyError ''patient_info'')"
    if "map_of (ctx s) ''patient_info'' = None"
  proof -
    from that have g: "ctx_get s ''patient_info'' = Inl (ContextKeyError ''patient_info'')"
      by (simp add: ctx_get_def)
    have "handle_guideline_match self bundle s = Inl (ContextKeyError ''patient_info'')"
      by (simp add: handle_guideline_match_def g)
    moreover have "generate_output self rs s = Inl (ContextKeyError ''patient_info'')"
      by (simp add: generate_output_def Let_def g)
    ultimately show ?thesis by blast
  qed
  have 3: "gather_guideline_match self ev s = Inl (ContextKeyError ''num_conditions'')"
    if "map_of (ctx s) ''num_conditions'' = None"
  proof -
    from that have g: "ctx_get s ''num_conditions'' = Inl (ContextKeyError ''num_conditions'')"
      by (simp add: ctx_get_def)
    show ?thesis by (simp add: gather_guideline_match_def g)
  qed
  have 4: "\<exists>p. ctx_get s' ''patient_info'' = Inr (CPatientInfo p)"
    if "parse_patient_info self path s = Inr (s', out)" for s' out
    using parse_patient_info_Inr [OF that] by blast
  have 5: "ctx_get s' ''num_conditions'' = Inr (CNum (length bundles))"
    if "dispatch_guideline_match self bundles s = Inr (s', out)" for s' out
    using dispatch_guideline_match_Inr [OF that] by blast
  have 6: "\<exists>v'. ctx_get s' k = Inr v'"
    if "run_step self st e s = Inr (s', out)" "ctx_get s k = Inr v" for st e s' out v
  proof -
    from that(2) have "map_of (ctx s) k \<noteq> None"
      by (auto simp: ctx_get_def split: option.splits)
    then have "k \<in> set (map fst (ctx s))" by (simp add: map_of_eq_None_iff)
    with run_step_keeps_keys [OF that(1)] have "k \<in> set (map fst (ctx s'))" by blast
    then have "map_of (ctx s') k \<noteq> None" by (simp add: map_of_eq_None_iff)
    then show ?thesis by (auto simp: ctx_get_def)
  qed
  show ?thesis using 1 2 3 4 5 6 by blast
qed

lemma ex_parse_returns:
  "\<not> isl (parse_patient_info ex_workflow ''uploaded_patient.json''
            (initial_state ex_files ''uploaded_patient.json''))"
  by code_simp

theorem C5_witness:
  "handle_guideline_match ex_workflow (ex_bundle_of ''Asthma'')
     (initial_state ex_files ''uploaded_patient.json'') = Inl (ContextKeyError ''patient_info'') \<and>
   (\<exists>s' out p. parse_patient_info ex_workflow ''uploaded_patient.json''
       (initial_state ex_files ''uploaded_patient.json'') = Inr (s', out) \<and>
     ctx_get s' ''patient_info'' = Inr (CPatientInfo p))"
proof -
  note th = C5_context_get [of "initial_state ex_files ''uploaded_patient.json''"
      "''patient_info''" ex_workflow "ex_bundle_of ''Asthma''" "[]" "(ex_bundle_of ''Asthma'',
      ex_recommendation '''')" "''uploaded_patient.json''" "[]"]
  have none: "map_of (ctx (initial_state ex_files ''uploaded_patient.json'')) ''patient_info'' = None"
    by (simp add: initial_state_def)
  from th none have a: "handle_guideline_match ex_workflow (ex_bundle_of ''Asthma'')
     (initial_state ex_files ''uploaded_patient.json'') = Inl (ContextKeyError ''patient_info'')"
    by blast
  from ex_parse_returns obtain s' out where
    r: "parse_patient_info ex_workflow ''uploaded_patient.json''
       (initial_state ex_files ''uploaded_patient.json'') = Inr (s', out)"
    by (cases "parse_patient_info ex_workflow ''uploaded_patient.json''
       (initial_state ex_files ''uploaded_patient.json'')") auto
  with th obtain p where "ctx_get s' ''patient_info'' = Inr (CPatientInfo p)" by blast
  with r a show ?thesis by blast
qed

section \<open>Properties of the fan-in\<close>

lemma gather_guideline_match_step:
  assumes "ctx_get s ''num_conditions'' = Inr (CNum n)" and "\<not> released (collector s)"
    and "length (received (collector s)) < n"
  shows "\<exists>s1. gather_guideline_match self ev s =
       Inr (s1, if Suc (length (received (collector s))) = n
                then [GenerateCaseSummaryEvent (received (collector s) @ [ev])] else []) \<and>
     ctx s1 = ctx s \<and> queue s1 = queue s \<and> stopped s1 = stopped s \<and> calls s1 = calls s \<and>
     received (collector s1) = received (collector s) @ [ev] \<and>
     released (collector s1) = (Suc (length (received (collector s))) = n)"
proof (cases "Suc (length (received (collector s))) = n")
  case True
  with assms have "collect_events (collector s) ev n =
      Inr ((collector s)\<lparr>received := received (collector s) @ [ev], released := True\<rparr>,
           Some (received (collector s) @ [ev]))"
    by (simp add: collect_events_def Let_def)
  with assms(1) assms(2) True show ?thesis
    by (simp add: gather_guideline_match_def Let_def write_file_def)
next
  case False
  with assms have "collect_events (collector s) ev n =
      Inr ((collector s)\<lparr>received := received (collector s) @ [ev]\<rparr>, None)"
    by (simp add: collect_events_def Let_def)
  with assms(1) assms(2) False show ?thesis
    by (simp add: gather_guideline_match_def Let_def)
qed

lemma gather_all_arrivals:
  "ctx_get s ''num_conditions'' = Inr (CNum n) \<Longrightarrow> \<not> released (collector s) \<Longrightarrow>
   length (received (collector s)) + length evs \<le> n \<Longrightarrow>
     \<exists>s'. gather_all self evs s =
       Inr (s', if evs \<noteq> [] \<and> length (received (collector s)) + length evs = n
                then [GenerateCaseSummaryEvent (received (collector s) @ evs)] else [])"
proof (induction evs arbitrary: s)
  case Nil
  then show ?case by simp
next
  case (Cons ev evs)
  from Cons.prems(3) have lt: "length (received (collector s)) < n" by simp
  from gather_guideline_match_step [OF Cons.prems(1) Cons.prems(2) lt, of self ev]
  obtain s1 where g: "gather_guideline_match self ev s =
       Inr (s1, if Suc (length (received (collector s))) = n
                then [GenerateCaseSummaryEvent (received (collector s) @ [ev])] else [])"
    and c: "ctx s1 = ctx s"
    and r: "received (collector s1) = received (collector s) @ [ev]"
    and rel: "released (collector s1) = (Suc (length (received (collector s))) = n)"
    by blast
  show ?case
  proof (cases evs)
    case Nil
    with g show ?thesis by simp
  next
    case (Cons e es)
    with Cons.prems(3) have ns: "Suc (length (received (collector s))) \<noteq> n" by simp
    from Cons.prems(1) c have 1: "ctx_get s1 ''num_conditions'' = Inr (CNum n)"
      by (simp add: ctx_get_def)
    from rel ns have 2: "\<not> released (collector s1)" by simp
    from Cons.prems(3) r have 3: "length (received (collector s1)) + length evs \<le> n" by simp
    from Cons.IH [OF 1 2 3] obtain s' where
      "gather_all self evs s1 =
       Inr (s', if evs \<noteq> [] \<and> length (received (collector s1)) + length evs = n
                then [GenerateCaseSummaryEvent (received (collector s1) @ evs)] else [])"
      by blast
    with g ns r show ?thesis by simp
  qed
qed

text \<open>
  The fan-in of a fan-out that is not empty. For N bundles with N at least 1, whatever
  the order in which the N results arrive: the runs of gather_guideline_match on them emit
  exactly one event, the GenerateCaseSummaryEvent that carries the N arrived pairs, and
  the runs on fewer than N of them emit none.
\<close>

lemma gathered_once_nonempty:
  assumes "dispatch_guideline_match self bundles s0 = Inr (s, evs)"
    and "collector s0 = new_collector"
    and "bundles \<noteq> []"
    and "mset (map fst arrivals) = mset bundles"
  shows "evs = map MatchGuidelineEvent bundles \<and> length arrivals = length bundles \<and>
    (\<exists>s'. gather_all self arrivals s = Inr (s', [GenerateCaseSummaryEvent arrivals])) \<and>
    (\<forall>k<length arrivals. \<exists>s'. gather_all self (take k arrivals) s = Inr (s', []))"
proof -
  from dispatch_guideline_match_Inr [OF assms(1)] assms(2) have
    n: "ctx_get s ''num_conditions'' = Inr (CNum (length bundles))"
    and evs: "evs = map MatchGuidelineEvent bundles"
    and col: "collector s = new_collector"
    by simp_all
  from col have nr: "\<not> released (collector s)" and r0: "received (collector s) = []"
    by (simp_all add: new_collector_def)
  from assms(4) have len: "length arrivals = length bundles"
    by (metis length_map size_mset)
  with assms(3) have ne: "arrivals \<noteq> []" by auto
  have le: "length (received (collector s)) + length arrivals \<le> length bundles"
    by (simp add: r0 len)
  from gather_all_arrivals [OF n nr le, of self] ne len r0
  have full: "\<exists>s'. gather_all self arrivals s = Inr (s', [GenerateCaseSummaryEvent arrivals])"
    by simp
  have part: "\<exists>s'. gather_all self (take k arrivals) s = Inr (s', [])" if "k < length arrivals" for k
  proof -
    from that len have l: "length (received (collector s)) + length (take k arrivals)
        \<le> length bundles"
      by (simp add: r0)
    from that len have "length (received (collector s)) + length (take k arrivals)
        \<noteq> length bundles"
      by (simp add: r0)
    with gather_all_arrivals [OF n nr l, of self] show ?thesis by simp
  qed
  show ?thesis using evs len full part by blast
qed

lemma gathered_once_example:
  "length ex_arrivals = 2 \<and>
   (\<exists>s'. gather_all ex_workflow ex_arrivals ex_dispatched =
      Inr (s', [GenerateCaseSummaryEvent ex_arrivals])) \<and>
   (\<exists>s'. gather_all ex_workflow (take 1 ex_arrivals) ex_dispatched = Inr (s', []))"
proof -
  have d: "dispatch_guideline_match ex_workflow [ex_bundle_of ''Asthma'', ex_bundle_of ''Eczema'']
      ex_state = Inr (ex_dispatched,
        map MatchGuidelineEvent [ex_bundle_of ''Asthma'', ex_bundle_of ''Eczema''])"
    by (simp add: dispatch_guideline_match_def ex_dispatched_def numeral_2_eq_2)
  have c: "collector ex_state = new_collector"
    by (simp add: ex_state_def ctx_set_def initial_state_def)
  have n: "[ex_bundle_of ''Asthma'', ex_bundle_of ''Eczema''] \<noteq> []" by simp
  have m: "mset (map fst ex_arrivals) = mset [ex_bundle_of ''Asthma'', ex_bundle_of ''Eczema'']"
    by (simp add: ex_arrivals_def)
  note th = gathered_once_nonempty [OF d c n m]
  have l: "length ex_arrivals = 2" by (simp add: ex_arrivals_def)
  have "(1::nat) < length ex_arrivals" by (simp add: ex_arrivals_def)
  with th have "\<exists>s'. gather_all ex_workflow (take 1 ex_arrivals) ex_dispatched = Inr (s', [])"
    by blast
  with th l show ?thesis by blast
qed

text \<open>
  C1, on the code, for a fan-out of N = 0 bundles: the GenerateCaseSummaryEvent is emitted
  zero times, not once. dispatch_guideline_match sets num_conditions to 0 and emits no
  MatchGuidelineEvent, in every state and for every workflow object; so no result arrives
  at gather_guideline_match, and the runs of gather_guideline_match on the arrivals, there
  being none, emit no event. Nor would a run of gather_guideline_match on any event emit
  one in that state: the collector refuses a submission beyond the declared count of 0.
\<close>

theorem C1_empty_fanout_never_gathered:
  "dispatch_guideline_match self [] s = Inr (ctx_set s ''num_conditions'' (CNum 0), []) \<and>
   gather_all self [] (ctx_set s ''num_conditions'' (CNum 0)) =
     Inr (ctx_set s ''num_conditions'' (CNum 0), []) \<and>
   gather_guideline_match self ev (ctx_set s ''num_conditions'' (CNum 0)) = Inl BarrierError"
  by (simp add: dispatch_guideline_match_def gather_guideline_match_def ctx_get_ctx_set
      collect_events_def)

section \<open>Properties of the scheduler\<close>

lemma dispatch_workflow_steps:
  "dispatch self workflow_steps (StartEvent path) s = parse_patient_info self path s"
  "dispatch self workflow_steps (PatientInfoEvent p) s = create_condition_bundles_step self p s"
  "dispatch self workflow_steps (ConditionBundleEvent bs) s = dispatch_guideline_match self bs s"
  "dispatch self workflow_steps (MatchGuidelineEvent b) s = handle_guideline_match self b s"
  "dispatch self workflow_steps (MatchGuidelineResultEvent b r) s =
     gather_guideline_match self (b, r) s"
  "dispatch self workflow_steps (GenerateCaseSummaryEvent rs) s = generate_output self rs s"
  by (simp_all add: dispatch_def route_def consumers_def workflow_steps_def)

lemma run_steps_settled: "queue s = [] \<Longrightarrow> run_steps self reg ks s = settled s"
  by (cases ks) simp_all

lemma settled_not_Running: "settled s \<noteq> Running t"
  by (simp add: settled_def split: option.splits)

lemma run_steps_append:
  "run_steps self reg (a @ b) s =
     (case run_steps self reg a s of Running s' \<Rightarrow> run_steps self reg b s' | r \<Rightarrow> r)"
proof (induction a arbitrary: s)
  case Nil
  show ?case
  proof (cases "queue s = []")
    case True
    then show ?thesis
      by (simp add: run_steps_settled settled_def split: option.splits)
  next
    case False
    then show ?thesis by simp
  qed
next
  case (Cons k a)
  show ?case
  proof (cases "queue s = []")
    case True
    then show ?thesis
      by (simp add: run_steps_settled settled_def split: option.splits)
  next
    case False
    then show ?thesis
      by (cases "step self reg k s") (simp_all add: Cons.IH)
  qed
qed

lemma take_event_singleton: "queue s = [ev] \<Longrightarrow> take_event k s = (ev, s\<lparr>queue := []\<rparr>)"
  by (simp add: take_event_def)

lemma step_singleton: "queue s = [ev] \<Longrightarrow> step self reg k s = step self reg 0 s"
  by (simp add: step_def take_event_singleton)

lemma step_start:
  assumes "queue s = [StartEvent path]" and "step self workflow_steps k s = Running s'"
  shows "\<exists>p. queue s' = [PatientInfoEvent p] \<and>
     ctx_get s' ''patient_info'' = Inr (CPatientInfo p) \<and>
     collector s' = collector s \<and> stopped s' = stopped s"
proof -
  from assms obtain r where
    d: "parse_patient_info self path (s\<lparr>queue := []\<rparr>) = Inr r" and s': "s' = enqueue r"
    by (auto simp: step_def take_event_singleton dispatch_workflow_steps split: sum.splits)
  obtain t out where r: "r = (t, out)" by (cases r)
  from parse_patient_info_Inr [OF d [unfolded r]] r s' show ?thesis
    by (auto simp: enqueue_def ctx_get_def)
qed

lemma step_patient:
  assumes "queue s = [PatientInfoEvent p]" and "step self workflow_steps k s = Running s'"
  shows "\<exists>bs. queue s' = [ConditionBundleEvent bs] \<and> ctx s' = ctx s \<and>
     collector s' = collector s \<and> stopped s' = stopped s"
proof -
  from assms obtain r where
    d: "create_condition_bundles_step self p (s\<lparr>queue := []\<rparr>) = Inr r" and s': "s' = enqueue r"
    by (auto simp: step_def take_event_singleton dispatch_workflow_steps split: sum.splits)
  obtain t out where r: "r = (t, out)" by (cases r)
  from create_condition_bundles_step_Inr [OF d [unfolded r]] r s' show ?thesis
    by (auto simp: enqueue_def)
qed

lemma step_bundles:
  assumes "queue s = [ConditionBundleEvent bs]" and "step self workflow_steps k s = Running s'"
  shows "queue s' = map MatchGuidelineEvent bs \<and>
     ctx_get s' ''num_conditions'' = Inr (CNum (length bs)) \<and>
     ctx_get s' ''patient_info'' = ctx_get s ''patient_info'' \<and>
     collector s' = collector s \<and> stopped s' = stopped s"
proof -
  from assms obtain r where
    d: "dispatch_guideline_match self bs (s\<lparr>queue := []\<rparr>) = Inr r" and s': "s' = enqueue r"
    by (auto simp: step_def take_event_singleton dispatch_workflow_steps split: sum.splits)
  obtain t out where r: "r = (t, out)" by (cases r)
  from dispatch_guideline_match_Inr [OF d [unfolded r]] have
    1: "ctx_get t ''num_conditions'' = Inr (CNum (length bs))"
    and 2: "out = map MatchGuidelineEvent bs"
    and 3: "ctx_get t ''patient_info'' = ctx_get (s\<lparr>queue := []\<rparr>) ''patient_info''"
    and 4: "collector t = collector s" "queue t = []" "stopped t = stopped s"
    by simp_all
  show ?thesis
    unfolding s' r using 1 2 3 4 by (simp add: enqueue_def ctx_get_def)
qed

lemma run_steps_singleton:
  "queue s = [ev] \<Longrightarrow> run_steps self reg (k # ks) s = run_steps self reg (0 # ks) s"
  using step_singleton [of s ev self reg k] by simp

lemma run_steps_cong_step:
  assumes "\<And>s'. step self reg k s = Running s' \<Longrightarrow>
     run_steps self reg a s' = run_steps self reg b s'"
  shows "run_steps self reg (k # a) s = run_steps self reg (k # b) s"
  using assms by (cases "step self reg k s") simp_all

lemma queue_initial_state [simp]:
  "queue (initial_state fs path) = [StartEvent path]"
  by (simp add: initial_state_def)

lemma first_three_steps:
  "run_steps self workflow_steps (k1 # k2 # k3 # ks) (initial_state fs path) =
     run_steps self workflow_steps ([0, 0, 0] @ ks) (initial_state fs path)"
proof -
  let ?init = "initial_state fs path"
  have a: "run_steps self workflow_steps (k1 # k2 # k3 # ks) ?init =
      run_steps self workflow_steps (0 # k2 # k3 # ks) ?init"
    by (rule run_steps_singleton) simp
  have b: "run_steps self workflow_steps (0 # k2 # k3 # ks) ?init =
      run_steps self workflow_steps (0 # 0 # k3 # ks) ?init"
  proof (rule run_steps_cong_step)
    fix s1 assume "step self workflow_steps 0 ?init = Running s1"
    from step_start [OF _ this] obtain p where "queue s1 = [PatientInfoEvent p]" by auto
    then show "run_steps self workflow_steps (k2 # k3 # ks) s1 =
        run_steps self workflow_steps (0 # k3 # ks) s1"
      by (rule run_steps_singleton)
  qed
  have c: "run_steps self workflow_steps (0 # 0 # k3 # ks) ?init =
      run_steps self workflow_steps (0 # 0 # 0 # ks) ?init"
  proof (rule run_steps_cong_step)
    fix s1 assume "step self workflow_steps 0 ?init = Running s1"
    from step_start [OF _ this] obtain p where q1: "queue s1 = [PatientInfoEvent p]" by auto
    show "run_steps self workflow_steps (0 # k3 # ks) s1 =
        run_steps self workflow_steps (0 # 0 # ks) s1"
    proof (rule run_steps_cong_step)
      fix s2 assume "step self workflow_steps 0 s1 = Running s2"
      from step_patient [OF q1 this] obtain bs where "queue s2 = [ConditionBundleEvent bs]"
        by auto
      then show "run_steps self workflow_steps (k3 # ks) s2 =
          run_steps self workflow_steps (0 # ks) s2"
        by (rule run_steps_singleton)
    qed
  qed
  show ?thesis using a b c by simp
qed

lemma first_two_steps:
  "run_steps self workflow_steps [k1, k2] (initial_state fs path) =
     run_steps self workflow_steps [0, 0] (initial_state fs path)"
proof -
  let ?init = "initial_state fs path"
  have a: "run_steps self workflow_steps [k1, k2] ?init = run_steps self workflow_steps [0, k2] ?init"
    by (rule run_steps_singleton) simp
  have b: "run_steps self workflow_steps [0, k2] ?init = run_steps self workflow_steps [0, 0] ?init"
  proof (rule run_steps_cong_step)
    fix s1 assume "step self workflow_steps 0 ?init = Running s1"
    from step_start [OF _ this] obtain p where "queue s1 = [PatientInfoEvent p]" by auto
    then show "run_steps self workflow_steps [k2] s1 = run_steps self workflow_steps [0] s1"
      by (rule run_steps_singleton)
  qed
  show ?thesis using a b by simp
qed

lemma first_step:
  "run_steps self workflow_steps [k1] (initial_state fs path) =
     run_steps self workflow_steps [0] (initial_state fs path)"
  by (rule run_steps_singleton) simp

lemma case_Running: "(case r of Running s \<Rightarrow> True | _ \<Rightarrow> False) \<Longrightarrow> \<exists>s. r = Running s"
  by (cases r) simp_all

lemma case_Stalled: "(case r of Stalled s \<Rightarrow> True | _ \<Rightarrow> False) \<Longrightarrow> \<exists>s. r = Stalled s"
  by (cases r) simp_all

lemma ex_no_bundles_run:
  "(case run_steps ex_no_bundles workflow_steps [] (initial_state ex_files ''uploaded_patient.json'')
      of Running s \<Rightarrow> True | _ \<Rightarrow> False) \<and>
   (case run_steps ex_no_bundles workflow_steps [0] (initial_state ex_files ''uploaded_patient.json'')
      of Running s \<Rightarrow> True | _ \<Rightarrow> False) \<and>
   (case run_steps ex_no_bundles workflow_steps [0, 0]
        (initial_state ex_files ''uploaded_patient.json'')
      of Running s \<Rightarrow> True | _ \<Rightarrow> False) \<and>
   (case run_steps ex_no_bundles workflow_steps [0, 0, 0]
        (initial_state ex_files ''uploaded_patient.json'')
      of Stalled s \<Rightarrow> True | _ \<Rightarrow> False)"
  by code_simp

text \<open>
  C3, on the code. The model finds no condition bundle for the patient of the example.
  Whatever the schedule, the run never returns: after parse_patient_info,
  create_condition_bundles and dispatch_guideline_match no event is pending and no
  StopEvent has been emitted.
\<close>

theorem C3_empty_fanout_stalls:
  "run_workflow_async ex_no_bundles sched ex_files ''uploaded_patient.json'' =
     (if length sched < 3 then Unfinished else Never_returns)"
proof -
  let ?init = "initial_state ex_files ''uploaded_patient.json''"
  let ?run = "\<lambda>ks. run_steps ex_no_bundles workflow_steps ks ?init"
  note ex = ex_no_bundles_run
  from case_Running [OF ex [THEN conjunct1]] obtain s0 where r0: "?run [] = Running s0"
    by blast
  from case_Running [OF ex [THEN conjunct2, THEN conjunct1]] obtain s1 where
    r1: "?run [0] = Running s1" by blast
  from case_Running [OF ex [THEN conjunct2, THEN conjunct2, THEN conjunct1]] obtain s2 where
    r2: "?run [0, 0] = Running s2" by blast
  from case_Stalled [OF ex [THEN conjunct2, THEN conjunct2, THEN conjunct2]] obtain s3 where
    r3: "?run [0, 0, 0] = Stalled s3" by blast
  have reg: "construct_registry workflow_steps = Inr workflow_steps"
    by (rule construct_workflow_steps)
  have short: "run_workflow_async ex_no_bundles sched ex_files ''uploaded_patient.json'' =
     (if length sched < 3 then Unfinished else Never_returns)"
    if "?run sched = Running t" "length sched < 3" for t
    unfolding run_workflow_async_def reg using that by simp
  have long: "run_workflow_async ex_no_bundles sched ex_files ''uploaded_patient.json'' =
     (if length sched < 3 then Unfinished else Never_returns)"
    if "?run sched = Stalled t" "\<not> length sched < 3" for t
    unfolding run_workflow_async_def reg using that by simp
  show ?thesis
  proof (cases sched)
    case Nil
    have "?run sched = Running s0" unfolding Nil by (rule r0)
    moreover have "length sched < 3" unfolding Nil by simp
    ultimately show ?thesis by (rule short)
  next
    case c1: (Cons k1 t1)
    show ?thesis
    proof (cases t1)
      case Nil
      have "?run sched = ?run [0]" unfolding c1 Nil by (rule first_step)
      then have "?run sched = Running s1" using r1 by (rule trans)
      moreover have "length sched < 3" unfolding c1 Nil by simp
      ultimately show ?thesis by (rule short)
    next
      case c2: (Cons k2 t2)
      show ?thesis
      proof (cases t2)
        case Nil
        have "?run sched = ?run [0, 0]" unfolding c1 c2 Nil by (rule first_two_steps)
        then have "?run sched = Running s2" using r2 by (rule trans)
        moreover have "length sched < 3" unfolding c1 c2 Nil by simp
        ultimately show ?thesis by (rule short)
      next
        case c3: (Cons k3 ks)
        have "?run sched = ?run ([0, 0, 0] @ ks)"
          unfolding c1 c2 c3 by (rule first_three_steps)
        also have "\<dots> = Stalled s3"
          unfolding run_steps_append r3 by simp
        finally have "?run sched = Stalled s3" .
        moreover have "\<not> length sched < 3" unfolding c1 c2 c3 by simp
        ultimately show ?thesis by (rule long)
      qed
    qed
  qed
qed

section \<open>Runs between the fan-out and the fan-in\<close>

lemma step_Running_or_Failed:
  "(\<exists>s'. step self reg k s = Running s') \<or> (\<exists>e. step self reg k s = Failed e)"
  by (auto simp: step_def split: prod.splits event.splits sum.splits)

lemma run_steps_Cons_Running:
  assumes "queue s \<noteq> []" and "run_steps self reg (k # ks) s = Running t"
  shows "\<exists>s'. step self reg k s = Running s' \<and> run_steps self reg ks s' = Running t"
  using assms step_Running_or_Failed [of self reg k s] by auto

lemma fanout_reached:
  assumes "run_steps self workflow_steps [0, 0, 0] (initial_state fs path) = Running s"
  shows "\<exists>p bs. fanout_state p s \<and> queue s = map MatchGuidelineEvent bs"
proof -
  let ?init = "initial_state fs path"
  have q0: "queue ?init = [StartEvent path]" by simp
  then have "queue ?init \<noteq> []" by simp
  from run_steps_Cons_Running [OF this assms] obtain s1 where
    st1: "step self workflow_steps 0 ?init = Running s1"
    and r1: "run_steps self workflow_steps [0, 0] s1 = Running s" by blast
  from step_start [OF q0 st1] obtain p where q1: "queue s1 = [PatientInfoEvent p]"
    and p1: "ctx_get s1 ''patient_info'' = Inr (CPatientInfo p)"
    and c1: "collector s1 = new_collector" and t1: "stopped s1 = None"
    by (auto simp: initial_state_def)
  from q1 have "queue s1 \<noteq> []" by simp
  from run_steps_Cons_Running [OF this r1] obtain s2 where
    st2: "step self workflow_steps 0 s1 = Running s2"
    and r2: "run_steps self workflow_steps [0] s2 = Running s" by blast
  from step_patient [OF q1 st2] obtain bs where q2: "queue s2 = [ConditionBundleEvent bs]"
    and x2: "ctx s2 = ctx s1" and c2: "collector s2 = collector s1"
    and t2: "stopped s2 = stopped s1"
    by blast
  from q2 have "queue s2 \<noteq> []" by simp
  from run_steps_Cons_Running [OF this r2] obtain s3 where
    st3: "step self workflow_steps 0 s2 = Running s3"
    and r3: "run_steps self workflow_steps [] s3 = Running s" by blast
  from r3 have s: "s3 = s"
    by (auto simp: settled_not_Running split: if_splits)
  from step_bundles [OF q2 st3] have q3: "queue s3 = map MatchGuidelineEvent bs"
    and n3: "ctx_get s3 ''num_conditions'' = Inr (CNum (length bs))"
    and p3: "ctx_get s3 ''patient_info'' = ctx_get s2 ''patient_info''"
    and c3: "collector s3 = collector s2" and t3: "stopped s3 = stopped s2"
    by simp_all
  from p3 x2 p1 have p3': "ctx_get s3 ''patient_info'' = Inr (CPatientInfo p)"
    by (simp add: ctx_get_def)
  have "fanout_state p s3"
    unfolding fanout_state_def
    using p3' n3 q3 c3 c2 c1 t3 t2 t1
    by (simp add: new_collector_def list_all_iff)
  with q3 s show ?thesis by blast
qed

lemma remove_nth_props:
  assumes "i < length q"
  shows "length (take i q @ drop (Suc i) q) = length q - 1"
    and "set (take i q @ drop (Suc i) q) \<subseteq> set q"
    and "x \<in> set q \<Longrightarrow> x \<noteq> q ! i \<Longrightarrow> x \<in> set (take i q @ drop (Suc i) q)"
    and "length (filter P q) =
       length (filter P (take i q @ drop (Suc i) q)) + (if P (q ! i) then 1 else 0)"
proof -
  from assms have q: "q = take i q @ q ! i # drop (Suc i) q"
    by (rule id_take_nth_drop)
  show "length (take i q @ drop (Suc i) q) = length q - 1"
    using assms by simp
  show "set (take i q @ drop (Suc i) q) \<subseteq> set q"
    by (metis set_append set_drop_subset set_take_subset Un_least)
  show "x \<in> set (take i q @ drop (Suc i) q)" if "x \<in> set q" "x \<noteq> q ! i"
  proof -
    from that(1) have "x \<in> set (take i q @ q ! i # drop (Suc i) q)" using q by simp
    with that(2) show ?thesis by auto
  qed
  have "filter P q = filter P (take i q @ q ! i # drop (Suc i) q)" using q by simp
  then show "length (filter P q) =
       length (filter P (take i q @ drop (Suc i) q)) + (if P (q ! i) then 1 else 0)"
    by simp
qed

lemma ctx_get_queue [simp]: "ctx_get (s\<lparr>queue := q\<rparr>) k = ctx_get s k"
  by (simp add: ctx_get_def)

lemma fanout_step:
  assumes inv: "fanout_state p s" and ne: "queue s \<noteq> []"
  shows "(\<exists>e b t. step self workflow_steps k s = Failed e \<and>
            MatchGuidelineEvent b \<in> set (queue s) \<and>
            ctx_get t ''patient_info'' = Inr (CPatientInfo p) \<and>
            handle_guideline_match self b t = Inl e) \<or>
         (\<exists>s'. step self workflow_steps k s = Running s' \<and> fanout_state p s' \<and>
            steps_left s' < steps_left s \<and>
            (\<forall>b. MatchGuidelineEvent b \<in> set (queue s') \<longrightarrow>
                 MatchGuidelineEvent b \<in> set (queue s)) \<and>
            (\<forall>b. MatchGuidelineEvent b \<in> set (queue s) \<longrightarrow>
                 MatchGuidelineEvent b \<noteq> fst (take_event k s) \<longrightarrow>
                 MatchGuidelineEvent b \<in> set (queue s'))) \<or>
         (\<exists>s' rs. step self workflow_steps k s = Running s' \<and>
            queue s' = [GenerateCaseSummaryEvent rs] \<and>
            filter is_match_event (queue s) = [])"
proof -
  define q where "q = queue s"
  define i where "i = k mod length q"
  define ev where "ev = q ! i"
  define rest where "rest = take i q @ drop (Suc i) q"
  define s1 where "s1 = s\<lparr>queue := rest\<rparr>"
  from ne have i: "i < length q" by (simp add: i_def q_def)
  have te: "take_event k s = (ev, s1)"
    by (simp add: take_event_def Let_def ev_def s1_def rest_def i_def q_def)
  note rp = remove_nth_props [OF i, folded rest_def ev_def]
  from i have ev_in: "ev \<in> set q" by (simp add: ev_def)
  from inv have pi: "ctx_get s ''patient_info'' = Inr (CPatientInfo p)"
    and nc: "ctx_get s ''num_conditions'' =
       Inr (CNum (length q + length (received (collector s))))"
    and nrel: "\<not> released (collector s)" and nstop: "stopped s = None"
    and all: "list_all is_fanout_event q"
    by (simp_all add: fanout_state_def q_def)
  from all ev_in have fev: "is_fanout_event ev" by (simp add: list_all_iff)
  from all rp(2) have all_rest: "list_all is_fanout_event rest"
    by (auto simp: list_all_iff)
  have pi1: "ctx_get s1 ''patient_info'' = Inr (CPatientInfo p)"
    by (simp add: s1_def pi)
  show ?thesis
  proof (cases ev)
    case (MatchGuidelineEvent b)
    have st: "step self workflow_steps k s =
        (case handle_guideline_match self b s1 of Inl e \<Rightarrow> Failed e
         | Inr r \<Rightarrow> Running (enqueue r))"
      by (simp add: step_def te MatchGuidelineEvent dispatch_workflow_steps)
    show ?thesis
    proof (cases "handle_guideline_match self b s1")
      case (Inl e)
      with st have "step self workflow_steps k s = Failed e" by simp
      moreover from ev_in MatchGuidelineEvent have "MatchGuidelineEvent b \<in> set (queue s)"
        by (simp add: q_def)
      ultimately show ?thesis using pi1 Inl by blast
    next
      case (Inr r)
      obtain s2 out where r: "r = (s2, out)" by (cases r)
      from handle_guideline_match_same_run [OF Inr [unfolded r]] obtain rc where
        sr: "same_run s1 s2" and out: "out = [MatchGuidelineResultEvent b rc]" by blast
      define s' where "s' = enqueue r"
      from st Inr have run: "step self workflow_steps k s = Running s'"
        by (simp add: s'_def)
      from sr have f: "ctx s2 = ctx s" "collector s2 = collector s" "queue s2 = rest"
        "stopped s2 = stopped s"
        by (simp_all add: same_run_def s1_def)
      have qs': "queue s' = rest @ [MatchGuidelineResultEvent b rc]"
        by (simp add: s'_def enqueue_def r out f)
      have fs': "ctx s' = ctx s" "collector s' = collector s" "stopped s' = stopped s"
        by (simp_all add: s'_def enqueue_def r f)
      from i rp(1) have len: "length (queue s') = length q" by (simp add: qs')
      have inv': "fanout_state p s'"
        unfolding fanout_state_def
        using pi nc nrel nstop all_rest len
        by (simp add: ctx_get_def fs' qs')
      from rp(4) [of is_match_event] MatchGuidelineEvent
      have cnt: "length (filter is_match_event q) = length (filter is_match_event rest) + 1"
        by simp
      have dec: "steps_left s' < steps_left s"
        unfolding steps_left_def len q_def [symmetric]
        by (simp add: qs' cnt)
      have sub: "\<forall>b'. MatchGuidelineEvent b' \<in> set (queue s') \<longrightarrow>
          MatchGuidelineEvent b' \<in> set (queue s)"
        using rp(2) by (auto simp: qs' q_def)
      have keep: "\<forall>b'. MatchGuidelineEvent b' \<in> set (queue s) \<longrightarrow>
          MatchGuidelineEvent b' \<noteq> fst (take_event k s) \<longrightarrow>
          MatchGuidelineEvent b' \<in> set (queue s')"
        using rp(3) by (simp add: te qs' q_def [symmetric])
      from run inv' dec sub keep show ?thesis by blast
    qed
  next
    case (MatchGuidelineResultEvent b rc)
    have st: "step self workflow_steps k s =
        (case gather_guideline_match self (b, rc) s1 of Inl e \<Rightarrow> Failed e
         | Inr r \<Rightarrow> Running (enqueue r))"
      by (simp add: step_def te MatchGuidelineResultEvent dispatch_workflow_steps)
    define n where "n = length q + length (received (collector s))"
    have nc1: "ctx_get s1 ''num_conditions'' = Inr (CNum n)"
      by (simp add: s1_def nc n_def)
    have nrel1: "\<not> released (collector s1)" by (simp add: s1_def nrel)
    from ne have "0 < length q" by (simp add: q_def)
    then have lt: "length (received (collector s1)) < n" by (simp add: s1_def n_def)
    from gather_guideline_match_step [OF nc1 nrel1 lt, of self "(b, rc)"] obtain s2 where
      g: "gather_guideline_match self (b, rc) s1 =
       Inr (s2, if Suc (length (received (collector s1))) = n
                then [GenerateCaseSummaryEvent (received (collector s1) @ [(b, rc)])] else [])"
      and f: "ctx s2 = ctx s1" "queue s2 = queue s1" "stopped s2 = stopped s1"
        "received (collector s2) = received (collector s1) @ [(b, rc)]"
        "released (collector s2) = (Suc (length (received (collector s1))) = n)"
      by blast
    from rp(4) [of is_match_event] MatchGuidelineResultEvent
    have cnt: "length (filter is_match_event q) = length (filter is_match_event rest)"
      by simp
    show ?thesis
    proof (cases "Suc (length (received (collector s1))) = n")
      case True
      then have l1: "length q = 1" by (simp add: n_def s1_def)
      with rp(1) have rest: "rest = []" by simp
      define s' where "s' = enqueue (s2,
          [GenerateCaseSummaryEvent (received (collector s1) @ [(b, rc)])])"
      from st g True have run: "step self workflow_steps k s = Running s'"
        by (simp add: s'_def)
      have qs': "queue s' = [GenerateCaseSummaryEvent (received (collector s1) @ [(b, rc)])]"
        by (simp add: s'_def enqueue_def f s1_def rest)
      from cnt rest have "filter is_match_event (queue s) = []"
        by (simp add: q_def)
      with run qs' show ?thesis by blast
    next
      case False
      define s' where "s' = enqueue (s2, [])"
      from st g False have run: "step self workflow_steps k s = Running s'"
        by (simp add: s'_def)
      have qs': "queue s' = rest" by (simp add: s'_def enqueue_def f s1_def)
      have fs': "ctx s' = ctx s" "stopped s' = stopped s"
        "received (collector s') = received (collector s) @ [(b, rc)]"
        "\<not> released (collector s')"
        using False by (simp_all add: s'_def enqueue_def f s1_def)
      from i rp(1) have len: "length rest + 1 = length q" by simp
      have inv': "fanout_state p s'"
        unfolding fanout_state_def
        using pi nc nstop all_rest len
        by (simp add: ctx_get_def fs' qs')
      have dec: "steps_left s' < steps_left s"
        unfolding steps_left_def q_def [symmetric] qs' using len cnt by simp
      have sub: "\<forall>b'. MatchGuidelineEvent b' \<in> set (queue s') \<longrightarrow>
          MatchGuidelineEvent b' \<in> set (queue s)"
        using rp(2) by (auto simp: qs' q_def)
      have keep: "\<forall>b'. MatchGuidelineEvent b' \<in> set (queue s) \<longrightarrow>
          MatchGuidelineEvent b' \<noteq> fst (take_event k s) \<longrightarrow>
          MatchGuidelineEvent b' \<in> set (queue s')"
        using rp(3) by (simp add: te qs' q_def [symmetric])
      from run inv' dec sub keep show ?thesis by blast
    qed
  qed (use fev in simp_all)
qed

lemma take_event_eq:
  "queue s \<noteq> [] \<Longrightarrow> \<exists>i<length (queue s). take_event k s =
     (queue s ! i, s\<lparr>queue := take i (queue s) @ drop (Suc i) (queue s)\<rparr>)"
proof -
  assume "queue s \<noteq> []"
  then have "k mod length (queue s) < length (queue s)" by simp
  moreover have "take_event k s = (queue s ! (k mod length (queue s)),
      s\<lparr>queue := take (k mod length (queue s)) (queue s) @
        drop (Suc (k mod length (queue s))) (queue s)\<rparr>)"
    by (simp add: take_event_def Let_def)
  ultimately show ?thesis by blast
qed

lemma step_match_Running:
  assumes "queue s \<noteq> []" and "fst (take_event k s) = MatchGuidelineEvent b"
    and "step self workflow_steps k s = Running s'"
  shows "\<not> isl (handle_guideline_match self b (snd (take_event k s)))"
proof -
  obtain ev s1 where te: "take_event k s = (ev, s1)" by (cases "take_event k s")
  with assms(2) have ev: "ev = MatchGuidelineEvent b" by simp
  from assms(3) show ?thesis
    by (auto simp: step_def te ev dispatch_workflow_steps split: sum.splits)
qed

lemma fanout_failing_run:
  assumes bad: "\<forall>t. ctx_get t ''patient_info'' = Inr (CPatientInfo p) \<longrightarrow>
     isl (handle_guideline_match self b0 t)"
  shows "fanout_state p s \<Longrightarrow> MatchGuidelineEvent b0 \<in> set (queue s) \<Longrightarrow>
     (case run_steps self workflow_steps sched s of
        Completed r t \<Rightarrow> False
      | Stalled t \<Rightarrow> False
      | Failed e \<Rightarrow> (\<exists>b t. MatchGuidelineEvent b \<in> set (queue s) \<and>
           ctx_get t ''patient_info'' = Inr (CPatientInfo p) \<and>
           handle_guideline_match self b t = Inl e)
      | Running t \<Rightarrow> length sched < steps_left s)"
proof (induction sched arbitrary: s)
  case Nil
  from Nil.prems(2) have ne: "queue s \<noteq> []" by auto
  then have "0 < steps_left s" by (simp add: steps_left_def)
  with ne show ?case by simp
next
  case (Cons k ks)
  from Cons.prems(2) have ne: "queue s \<noteq> []" by auto
  have "is_match_event (MatchGuidelineEvent b0)" by simp
  with Cons.prems(2) have pending: "filter is_match_event (queue s) \<noteq> []"
    unfolding filter_empty_conv by blast
  have run: "run_steps self workflow_steps (k # ks) s =
      (case step self workflow_steps k s of
         Running s' \<Rightarrow> run_steps self workflow_steps ks s' | r \<Rightarrow> r)"
    using ne by simp
  from fanout_step [OF Cons.prems(1) ne, of self k] pending
  consider (failed) e b t where "step self workflow_steps k s = Failed e"
      "MatchGuidelineEvent b \<in> set (queue s)"
      "ctx_get t ''patient_info'' = Inr (CPatientInfo p)"
      "handle_guideline_match self b t = Inl e"
    | (running) s' where "step self workflow_steps k s = Running s'" "fanout_state p s'"
      "steps_left s' < steps_left s"
      "\<forall>b. MatchGuidelineEvent b \<in> set (queue s') \<longrightarrow> MatchGuidelineEvent b \<in> set (queue s)"
      "\<forall>b. MatchGuidelineEvent b \<in> set (queue s) \<longrightarrow>
           MatchGuidelineEvent b \<noteq> fst (take_event k s) \<longrightarrow>
           MatchGuidelineEvent b \<in> set (queue s')"
    by blast
  then show ?case
  proof cases
    case failed
    then show ?thesis unfolding run by auto
  next
    case running
    have b0': "MatchGuidelineEvent b0 \<in> set (queue s')"
    proof (cases "MatchGuidelineEvent b0 = fst (take_event k s)")
      case True
      from step_match_Running [OF ne True [symmetric] running(1)]
      have ok: "\<not> isl (handle_guideline_match self b0 (snd (take_event k s)))" .
      from take_event_eq [OF ne, of k] obtain i where
        "take_event k s = (queue s ! i, s\<lparr>queue := take i (queue s) @ drop (Suc i) (queue s)\<rparr>)"
        by blast
      then have "ctx_get (snd (take_event k s)) ''patient_info'' = ctx_get s ''patient_info''"
        by (simp add: ctx_get_def)
      with Cons.prems(1) have "ctx_get (snd (take_event k s)) ''patient_info'' =
          Inr (CPatientInfo p)"
        by (simp add: fanout_state_def)
      with bad ok show ?thesis by blast
    next
      case False
      with running(5) Cons.prems(2) show ?thesis by blast
    qed
    note IH = Cons.IH [OF running(2) b0']
    show ?thesis
    proof (cases "run_steps self workflow_steps ks s'")
      case (Completed r t)
      with IH show ?thesis by simp
    next
      case (Failed e)
      with IH obtain b t where "MatchGuidelineEvent b \<in> set (queue s')"
        "ctx_get t ''patient_info'' = Inr (CPatientInfo p)"
        "handle_guideline_match self b t = Inl e"
        by auto
      with running(4) have "\<exists>b t. MatchGuidelineEvent b \<in> set (queue s) \<and>
           ctx_get t ''patient_info'' = Inr (CPatientInfo p) \<and>
           handle_guideline_match self b t = Inl e"
        by blast
      then show ?thesis unfolding run running(1) using Failed by simp
    next
      case (Stalled t)
      with IH show ?thesis by simp
    next
      case (Running t)
      with IH have "length ks < steps_left s'" by simp
      with running(3) have "length (k # ks) < steps_left s" by simp
      then show ?thesis unfolding run running(1) using Running by simp
    qed
  qed
qed

lemma run_steps_prefix_Running:
  assumes "run_steps self reg (a @ b) s = Running t"
  shows "\<exists>u. run_steps self reg a s = Running u"
  using assms unfolding run_steps_append
  by (cases "run_steps self reg a s") simp_all

lemma steps_left_fanned_out:
  "queue s = map MatchGuidelineEvent bs \<Longrightarrow> steps_left s = 2 * length (queue s)"
  by (simp add: steps_left_def)

lemma run_initial_Nil: "run_steps self reg [] (initial_state fs path) = Running (initial_state fs path)"
  by simp

text \<open>
  C4. Let the run have come to the fan-out (after parse_patient_info,
  create_condition_bundles and dispatch_guideline_match) and let one of the dispatched
  bundles be such that handle_guideline_match raises on it. Then under no schedule does
  the awaited run return a result, and under every schedule long enough for all steps
  that are left it raises an error that handle_guideline_match raised on one of the
  dispatched bundles. No result of a sibling that completed earlier is returned.
\<close>

theorem C4_failing_child_aborts:
  assumes "run_steps self workflow_steps [0, 0, 0] (initial_state fs path) = Running s"
    and "ctx_get s ''patient_info'' = Inr (CPatientInfo p)"
    and "MatchGuidelineEvent b0 \<in> set (queue s)"
    and "\<forall>t. ctx_get t ''patient_info'' = Inr (CPatientInfo p) \<longrightarrow>
           isl (handle_guideline_match self b0 t)"
  shows "(\<forall>x. run_workflow_async self sched fs path \<noteq> Returns x) \<and>
     (3 + 2 * length (queue s) \<le> length sched \<longrightarrow>
        (\<exists>e b t. run_workflow_async self sched fs path = Raises e \<and>
           MatchGuidelineEvent b \<in> set (queue s) \<and>
           ctx_get t ''patient_info'' = Inr (CPatientInfo p) \<and>
           handle_guideline_match self b t = Inl e))"
proof -
  let ?init = "initial_state fs path"
  let ?run = "\<lambda>ks. run_steps self workflow_steps ks ?init"
  have reg: "construct_registry workflow_steps = Inr workflow_steps"
    by (rule construct_workflow_steps)
  from fanout_reached [OF assms(1)] obtain p' bs where
    inv': "fanout_state p' s" and q: "queue s = map MatchGuidelineEvent bs" by blast
  from inv' assms(2) have "p' = p" by (simp add: fanout_state_def)
  with inv' have inv: "fanout_state p s" by simp
  note left = steps_left_fanned_out [OF q]
  have unfinished: "(\<forall>x. run_workflow_async self sched fs path \<noteq> Returns x) \<and>
     (3 + 2 * length (queue s) \<le> length sched \<longrightarrow>
        (\<exists>e b t. run_workflow_async self sched fs path = Raises e \<and>
           MatchGuidelineEvent b \<in> set (queue s) \<and>
           ctx_get t ''patient_info'' = Inr (CPatientInfo p) \<and>
           handle_guideline_match self b t = Inl e))"
    if "?run sched = Running u" "length sched < 3" for u
    unfolding run_workflow_async_def reg using that by simp
  show ?thesis
  proof (cases sched)
    case Nil
    have "?run sched = Running ?init" unfolding Nil by (rule run_initial_Nil)
    moreover have "length sched < 3" unfolding Nil by simp
    ultimately show ?thesis by (rule unfinished)
  next
    case c1: (Cons k1 t1)
    show ?thesis
    proof (cases t1)
      case Nil
      from assms(1) have "run_steps self workflow_steps ([0] @ [0, 0]) ?init = Running s"
        by simp
      from run_steps_prefix_Running [OF this] obtain u where u: "?run [0] = Running u" by blast
      have "?run sched = ?run [0]" unfolding c1 Nil by (rule first_step)
      then have "?run sched = Running u" using u by (rule trans)
      moreover have "length sched < 3" unfolding c1 Nil by simp
      ultimately show ?thesis by (rule unfinished)
    next
      case c2: (Cons k2 t2)
      show ?thesis
      proof (cases t2)
        case Nil
        from assms(1) have "run_steps self workflow_steps ([0, 0] @ [0]) ?init = Running s"
          by simp
        from run_steps_prefix_Running [OF this] obtain u where u: "?run [0, 0] = Running u"
          by blast
        have "?run sched = ?run [0, 0]" unfolding c1 c2 Nil by (rule first_two_steps)
        then have "?run sched = Running u" using u by (rule trans)
        moreover have "length sched < 3" unfolding c1 c2 Nil by simp
        ultimately show ?thesis by (rule unfinished)
      next
        case c3: (Cons k3 ks)
        have "?run sched = ?run ([0, 0, 0] @ ks)"
          unfolding c1 c2 c3 by (rule first_three_steps)
        also have "\<dots> = run_steps self workflow_steps ks s"
          unfolding run_steps_append assms(1) by simp
        finally have run: "?run sched = run_steps self workflow_steps ks s" .
        have len: "length sched = 3 + length ks" unfolding c1 c2 c3 by simp
        note cls = fanout_failing_run [OF assms(4) inv assms(3), of ks]
        show ?thesis
        proof (cases "run_steps self workflow_steps ks s")
          case (Completed r t)
          with cls show ?thesis by simp
        next
          case (Failed e)
          with cls obtain b t where "MatchGuidelineEvent b \<in> set (queue s)"
            "ctx_get t ''patient_info'' = Inr (CPatientInfo p)"
            "handle_guideline_match self b t = Inl e"
            by auto
          moreover have "run_workflow_async self sched fs path = Raises e"
            using run Failed by (simp add: run_workflow_async_def reg)
          ultimately show ?thesis by auto
        next
          case (Stalled t)
          with cls show ?thesis by simp
        next
          case (Running t)
          with cls have "length ks < steps_left s" by simp
          then have short: "\<not> 3 + 2 * length (queue s) \<le> length sched"
            unfolding left len by simp
          have "run_workflow_async self sched fs path = Unfinished"
            using run Running by (simp add: run_workflow_async_def reg)
          with short show ?thesis by simp
        qed
      qed
    qed
  qed
qed

lemma case_Running_holds:
  "(case r of Running s \<Rightarrow> P s | _ \<Rightarrow> False) \<Longrightarrow> \<exists>s. r = Running s \<and> P s"
  by (cases r) simp_all

lemma ex_failing_fanout:
  "(case run_steps ex_failing workflow_steps [0, 0, 0]
           (initial_state ex_files ''uploaded_patient.json'') of
      Running s \<Rightarrow> ctx_get s ''patient_info'' = Inr (CPatientInfo ex_active) \<and>
        queue s = [MatchGuidelineEvent (ex_bundle_of ''Asthma''),
                   MatchGuidelineEvent (ex_bundle_of ''Eczema'')]
    | _ \<Rightarrow> False)"
  by code_simp

lemma ex_failing_child:
  "\<forall>t. ctx_get t ''patient_info'' = Inr (CPatientInfo ex_active) \<longrightarrow>
     isl (handle_guideline_match ex_failing (ex_bundle_of ''Eczema'') t)"
  by (simp add: handle_guideline_match_def ex_failing_def ex_bundle_of_def)

lemma ex_failing_raises:
  "run_workflow_async ex_failing [0, 0, 0, 0, 1, 0, 0] ex_files ''uploaded_patient.json'' =
     Raises (CapabilityError ''quota exceeded'')"
  by code_simp

theorem C4_witness:
  "(\<forall>x. run_workflow_async ex_failing [0, 0, 0, 0, 1, 0, 0] ex_files ''uploaded_patient.json''
        \<noteq> Returns x) \<and>
   run_workflow_async ex_failing [0, 0, 0, 0, 1, 0, 0] ex_files ''uploaded_patient.json'' =
     Raises (CapabilityError ''quota exceeded'')"
proof -
  from case_Running_holds [OF ex_failing_fanout] obtain s where
    r: "run_steps ex_failing workflow_steps [0, 0, 0]
           (initial_state ex_files ''uploaded_patient.json'') = Running s"
    and p: "ctx_get s ''patient_info'' = Inr (CPatientInfo ex_active)"
    and q: "queue s = [MatchGuidelineEvent (ex_bundle_of ''Asthma''),
                   MatchGuidelineEvent (ex_bundle_of ''Eczema'')]"
    by blast
  from q have b: "MatchGuidelineEvent (ex_bundle_of ''Eczema'') \<in> set (queue s)" by simp
  from C4_failing_child_aborts [OF r p b ex_failing_child,
      of "[0, 0, 0, 0, 1, 0, 0]"]
  have "\<forall>x. run_workflow_async ex_failing [0, 0, 0, 0, 1, 0, 0] ex_files
      ''uploaded_patient.json'' \<noteq> Returns x"
    by blast
  with ex_failing_raises show ?thesis by blast
qed

end
